theory Spec2Isabelle
  imports Main "HOL-Library.Sublist"
begin

section \<open>Rank assignment store (hooks/useExclusiveRanking.js)\<close>

text \<open>
  The hook keeps \<open>responses\<close>, an object from question id to an object from option index
  to rank label. The outer object is only ever read and written by key, so it is a map.
  The inner object is enumerated by the code (\<open>Object.keys\<close>, \<open>Object.values\<close>), so it is
  an association list in JavaScript's property order: integer-like keys ascend.
  Option indices are the non-negative integers the component passes (\<open>optIdx\<close> of
  \<open>options.map\<close>), so \<open>parseInt(key)\<close> of a stored key is the index itself.
\<close>

type_synonym qdata = "(nat \<times> string) list"
type_synonym responses = "string \<rightharpoonup> qdata"

text \<open>\<open>obj[k] = v\<close> on an object with integer-like keys.\<close>

fun obj_set :: "nat \<Rightarrow> 'v \<Rightarrow> (nat \<times> 'v) list \<Rightarrow> (nat \<times> 'v) list" where
  "obj_set k v [] = [(k, v)]"
| "obj_set k v ((k', v') # kvs) =
     (if k = k' then (k, v) # kvs
      else if k < k' then (k, v) # (k', v') # kvs
      else (k', v') # obj_set k v kvs)"

text \<open>
  The \<open>forEach\<close> over \<open>Object.keys(updatedQData)\<close>: every other option holding exactly
  \<open>rank\<close> is reset to the empty string.
\<close>

definition clearSameRank :: "nat \<Rightarrow> string \<Rightarrow> qdata \<Rightarrow> qdata" where
  "clearSameRank optIdx rank updatedQData =
     map (\<lambda>(key, held). if key \<noteq> optIdx \<and> held = rank then (key, '''') else (key, held))
       updatedQData"

text \<open>
  The state updater passed to \<open>setResponses\<close> in \<open>updateRank\<close>, as a function from the
  previous state to the next.
\<close>

definition updateRank :: "responses \<Rightarrow> string \<Rightarrow> nat \<Rightarrow> string \<Rightarrow> responses" where
  "updateRank prevResponses qId optIdx rank =
     (let qData = (case prevResponses qId of None \<Rightarrow> [] | Some d \<Rightarrow> d) in
      if rank = '''' then prevResponses(qId \<mapsto> obj_set optIdx '''' qData)
      else prevResponses(qId \<mapsto> obj_set optIdx rank (clearSameRank optIdx rank qData)))"

text \<open>
  What the component reads back for one option: \<open>responses[q.id]?.[optIdx] || ""\<close>.
  An absent entry is the unset label.
\<close>

definition currentRank :: "responses \<Rightarrow> string \<Rightarrow> nat \<Rightarrow> string" where
  "currentRank rs qId optIdx =
     (case rs qId of
        None \<Rightarrow> ''''
      | Some qData \<Rightarrow> (case map_of qData optIdx of None \<Rightarrow> '''' | Some held \<Rightarrow> held))"

text \<open>The states the hook can be in: it starts from \<open>{}\<close> and changes only by \<open>updateRank\<close>.\<close>

inductive reachable :: "responses \<Rightarrow> bool" where
  initial: "reachable Map.empty"
| step: "reachable rs \<Longrightarrow> reachable (updateRank rs qId optIdx rank)"

definition numericLabels :: "string set" where
  "numericLabels = {''1'', ''2'', ''3'', ''4'', ''5''}"

text \<open>
  The repository carries a second copy of the hook (stored after IMPLEMENTATION_SUMMARY.md)
  whose \<open>updateRank\<close> wraps the sweep in \<open>if (rank !== "No")\<close>, under the comment
  \<open>"No" is non-exclusive - allow multiple options to be marked as "No"\<close>.
\<close>

definition updateRank_NoExempt :: "responses \<Rightarrow> string \<Rightarrow> nat \<Rightarrow> string \<Rightarrow> responses" where
  "updateRank_NoExempt prevResponses qId optIdx rank =
     (let qData = (case prevResponses qId of None \<Rightarrow> [] | Some d \<Rightarrow> d) in
      if rank = '''' then prevResponses(qId \<mapsto> obj_set optIdx '''' qData)
      else if rank \<noteq> ''No''
        then prevResponses(qId \<mapsto> obj_set optIdx rank (clearSameRank optIdx rank qData))
        else prevResponses(qId \<mapsto> obj_set optIdx rank qData))"

inductive reachable_NoExempt :: "responses \<Rightarrow> bool" where
  initial: "reachable_NoExempt Map.empty"
| step: "reachable_NoExempt rs \<Longrightarrow> reachable_NoExempt (updateRank_NoExempt rs qId optIdx rank)"

section \<open>Strings\<close>

text \<open>
  Strings are lists of 8-bit characters, read as the code units U+0000 to U+00FF.
  \<open>trim\<close> removes ECMAScript white space and line terminators from both ends; in this
  range they are TAB, LF, VT, FF, CR, SPACE and NO-BREAK SPACE.
\<close>

definition isWhiteSpace :: "char \<Rightarrow> bool" where
  "isWhiteSpace c \<longleftrightarrow>
     c \<in> set [CHR 0x09, CHR 0x0A, CHR 0x0B, CHR 0x0C, CHR 0x0D, CHR 0x20, CHR 0xA0]"

definition trim :: "string \<Rightarrow> string" where
  "trim s = rev (dropWhile isWhiteSpace (rev (dropWhile isWhiteSpace s)))"

text \<open>\<open>s.slice(0, end)\<close> for an integer \<open>end\<close>: a negative end counts from the end of \<open>s\<close>.\<close>

definition slice0 :: "string \<Rightarrow> int \<Rightarrow> string" where
  "slice0 s end_ix =
     (if end_ix < 0 then take (nat (int (length s) + end_ix)) s else take (nat end_ix) s)"

text \<open>\<open>s.includes(sub)\<close>.\<close>

fun str_includes :: "string \<Rightarrow> string \<Rightarrow> bool" where
  "str_includes [] sub = (sub = [])"
| "str_includes (c # cs) sub = (prefix sub (c # cs) \<or> str_includes cs sub)"

text \<open>Decimal rendering of a non-negative integer, as template literals do.\<close>

definition digitChar :: "nat \<Rightarrow> char" where
  "digitChar d = ''0123456789'' ! d"

function numberToString :: "nat \<Rightarrow> string" where
  "numberToString n =
     (if n < 10 then [digitChar n] else numberToString (n div 10) @ [digitChar (n mod 10)])"
  by pat_completeness auto
termination
  by (relation "measure (\<lambda>n. n)") auto

declare numberToString.simps [simp del]

section \<open>Sanitizer (utils/sanitization.js)\<close>

datatype jsval =
    JSUndefined
  | JSNull
  | JSBoolean bool
  | JSNumber int
  | JSString string
  | JSObject

definition MAX_TEXT_LENGTH :: int where
  "MAX_TEXT_LENGTH = 5000"

definition MAX_COMMENT_LENGTH :: int where
  "MAX_COMMENT_LENGTH = 10000"

text \<open>
  The regular expression \<open>/<script|<iframe|javascript:|onerror=/gi\<close>. Under the \<open>i\<close> flag
  (without \<open>u\<close>) a character matches an ASCII pattern character iff both have the same
  ASCII upper case: no character outside ASCII canonicalises to an ASCII one.
\<close>

definition asciiUpper :: "char \<Rightarrow> char" where
  "asciiUpper c =
     (case map_of (zip ''abcdefghijklmnopqrstuvwxyz'' ''ABCDEFGHIJKLMNOPQRSTUVWXYZ'') c of
        None \<Rightarrow> c
      | Some u \<Rightarrow> u)"

fun matchesAt :: "string \<Rightarrow> string \<Rightarrow> bool" where
  "matchesAt [] s = True"
| "matchesAt (p # ps) [] = False"
| "matchesAt (p # ps) (c # cs) = (asciiUpper p = asciiUpper c \<and> matchesAt ps cs)"

definition dangerousPatterns :: "string list" where
  "dangerousPatterns = [''<script'', ''<iframe'', ''javascript:'', ''onerror='']"

text \<open>The alternative that matches at the start of \<open>s\<close>, tried left to right.\<close>

definition matchHere :: "string \<Rightarrow> string option" where
  "matchHere s = find (\<lambda>p. matchesAt p s) dangerousPatterns"

text \<open>
  \<open>.replace(regex, "")\<close> with the \<open>g\<close> flag: one scan from the left; a match is deleted
  and the scan resumes after it (the match begins at the head, so the rest of it comes off
  the tail), otherwise the character is kept.
\<close>

function removeDangerous :: "string \<Rightarrow> string" where
  "removeDangerous [] = []"
| "removeDangerous (c # cs) =
     (case matchHere (c # cs) of
        Some p \<Rightarrow> removeDangerous (drop (length p - 1) cs)
      | None \<Rightarrow> c # removeDangerous cs)"
  by pat_completeness auto
termination
  by (relation "measure length") auto

definition sanitizeTextInput :: "jsval \<Rightarrow> int option \<Rightarrow> string" where
  "sanitizeTextInput text_arg maxLength_arg =
     (let maxLength = (case maxLength_arg of None \<Rightarrow> MAX_TEXT_LENGTH | Some n \<Rightarrow> n) in
      case text_arg of
        JSString s \<Rightarrow>
          if s = [] then [] else removeDangerous (slice0 (trim s) maxLength)
      | _ \<Rightarrow> [])"

definition sanitizeCommentInput :: "jsval \<Rightarrow> string" where
  "sanitizeCommentInput text_arg = sanitizeTextInput text_arg (Some MAX_COMMENT_LENGTH)"

subsection \<open>Case-insensitive occurrences, as the specification words them\<close>

text \<open>
  The specification bans the literal substrings \<open><script\<close>, \<open><iframe\<close>, \<open>javascript:\<close> and
  \<open>onerror=\<close>, compared without regard to case. Two strings are the same ignoring case when
  they agree after lower-casing the ASCII letters. A text starts with a banned pattern
  when one of its prefixes is a pattern ignoring case, and contains one when one of its
  suffixes starts with one.
\<close>

definition lowerLetters :: string where
  "lowerLetters = ''abcdefghijklmnopqrstuvwxyz''"

definition upperLetters :: string where
  "upperLetters = ''ABCDEFGHIJKLMNOPQRSTUVWXYZ''"

definition toLowerAscii :: "char \<Rightarrow> char" where
  "toLowerAscii c =
     (case map_of (zip upperLetters lowerLetters) c of None \<Rightarrow> c | Some l \<Rightarrow> l)"

definition sameIgnoringCase :: "string \<Rightarrow> string \<Rightarrow> bool" where
  "sameIgnoringCase u p \<longleftrightarrow> map toLowerAscii u = map toLowerAscii p"

definition bannedPatterns :: "string list" where
  "bannedPatterns = [''<script'', ''<iframe'', ''javascript:'', ''onerror='']"

definition startsWithBanned :: "string \<Rightarrow> bool" where
  "startsWithBanned s \<longleftrightarrow>
     list_ex (\<lambda>p. sameIgnoringCase (take (length p) s) p) bannedPatterns"

fun containsBanned :: "string \<Rightarrow> bool" where
  "containsBanned [] = False"
| "containsBanned (c # cs) = (startsWithBanned (c # cs) \<or> containsBanned cs)"

text \<open>Auxiliary notions for the proofs: agreement of the two case foldings on a character,
  and the lower-cased first two characters, which tell the four patterns apart.\<close>

definition foldsAlike :: "char \<Rightarrow> bool" where
  "foldsAlike c \<longleftrightarrow>
     toLowerAscii (asciiUpper c) = toLowerAscii c \<and> asciiUpper (toLowerAscii c) = asciiUpper c"

definition firstTwo :: "string \<Rightarrow> string" where
  "firstTwo p = map toLowerAscii (take 2 p)"

section \<open>Validation (utils/formValidation.js)\<close>

record question =
  q_id :: string
  q_text :: string
  q_section :: "string option"
  q_options :: "string list"

text \<open>
  The error objects: \<open>{type: "question", qId, qIdx, message}\<close> and
  \<open>{type: "final-comment", message}\<close>.
\<close>

datatype validationError =
    QuestionError string nat string
  | FinalCommentError string

record validationResult =
  isValid :: bool
  errors :: "validationError list"

text \<open>\<open>qData\<close> is \<open>responses[q.id]\<close>, \<open>undefined\<close> for a question never touched.\<close>

definition hasAnyRank :: "qdata option \<Rightarrow> bool" where
  "hasAnyRank qData =
     (case qData of
        None \<Rightarrow> False
      | Some d \<Rightarrow> list_ex (\<lambda>rank. rank \<noteq> '''') (map snd d))"

definition questionMessage :: "nat \<Rightarrow> question \<Rightarrow> string" where
  "questionMessage idx q =
     ''Question '' @ numberToString (idx + 1) @ '': '' @ take 50 (q_text q) @ ''...''"

text \<open>The \<open>questions.forEach((q, idx) => ...)\<close> loop, pushing onto \<open>errors\<close>.\<close>

fun validateQuestions ::
  "responses \<Rightarrow> question list \<Rightarrow> nat \<Rightarrow> validationError list \<Rightarrow> validationError list" where
  "validateQuestions rs [] idx errs = errs"
| "validateQuestions rs (q # qs) idx errs =
     validateQuestions rs qs (idx + 1)
       (if \<not> hasAnyRank (rs (q_id q))
        then errs @ [QuestionError (q_id q) idx (questionMessage idx q)]
        else errs)"

definition validateForm :: "question list \<Rightarrow> responses \<Rightarrow> string \<Rightarrow> validationResult" where
  "validateForm questions rs finalComment =
     (let errs = validateQuestions rs questions 0 [];
          errs' = (if finalComment = [] \<or> trim finalComment = []
                   then errs @ [FinalCommentError
                                  ''Final Comments: Please share your recommendations'']
                   else errs)
      in \<lparr>isValid = (length errs' = 0), errors = errs'\<rparr>)"

subsection \<open>The completeness policy, as the specification words it\<close>

text \<open>
  An association list stands for an object when its keys ascend strictly, as the integer
  keys of a JavaScript object do; the states of the hook are of this kind. The store's
  precondition is that only option indices of the question are assigned.
\<close>

definition objectsWellFormed :: "responses \<Rightarrow> bool" where
  "objectsWellFormed rs \<longleftrightarrow> (\<forall>qId d. rs qId = Some d \<longrightarrow> sorted_wrt (<) (map fst d))"

definition withinOptions :: "question list \<Rightarrow> responses \<Rightarrow> bool" where
  "withinOptions questions rs \<longleftrightarrow>
     (\<forall>q \<in> set questions. \<forall>i. currentRank rs (q_id q) i \<noteq> '''' \<longrightarrow> i < length (q_options q))"

text \<open>
  A question is answered iff any of its options holds a non-empty label. The expected
  errors: one \<open>question\<close> error per unanswered question, in question order, with the first
  50 characters of its text, then the \<open>final-comment\<close> error iff the comment is empty
  after trimming.
\<close>

definition answered :: "responses \<Rightarrow> question \<Rightarrow> bool" where
  "answered rs q \<longleftrightarrow> (\<exists>i < length (q_options q). currentRank rs (q_id q) i \<noteq> '''')"

definition blankComment :: "string \<Rightarrow> bool" where
  "blankComment finalComment \<longleftrightarrow> trim finalComment = ''''"

definition expectedErrors :: "question list \<Rightarrow> responses \<Rightarrow> string \<Rightarrow> validationError list" where
  "expectedErrors questions rs finalComment =
     map (\<lambda>(idx, q). QuestionError (q_id q) idx
            (''Question '' @ numberToString (idx + 1) @ '': '' @ take 50 (q_text q) @ ''...''))
       (filter (\<lambda>(idx, q). \<not> answered rs q) (enumerate 0 questions))
     @ (if blankComment finalComment
        then [FinalCommentError ''Final Comments: Please share your recommendations'']
        else [])"

text \<open>The questions of the repository's validation tests.\<close>

definition twoQuestions :: "question list" where
  "twoQuestions =
     [\<lparr>q_id = ''q1'', q_text = ''What is your favorite color?'', q_section = None,
       q_options = [''Red'', ''Blue'']\<rparr>,
      \<lparr>q_id = ''q2'', q_text = ''What is your favorite animal?'', q_section = None,
       q_options = [''Cat'', ''Dog'']\<rparr>]"

section \<open>Normalizer and transport (services/formSubmissionService.js)\<close>

record submissionPayload =
  timestamp :: string
  p_responses :: responses
  p_otherText :: "string \<rightharpoonup> string"
  p_finalComment :: string

text \<open>The inner \<open>for\<close> loop: \<open>entry[i] = qData[i] || "No"\<close> for \<open>i\<close> below \<open>numOptions\<close>.\<close>

definition normalizeEntry :: "qdata \<Rightarrow> nat \<Rightarrow> qdata" where
  "normalizeEntry qData numOptions =
     map (\<lambda>i. (i, case map_of qData i of
                    None \<Rightarrow> ''No''
                  | Some held \<Rightarrow> if held = '''' then ''No'' else held))
       [0..<numOptions]"

fun normalizeQuestions :: "responses \<Rightarrow> question list \<Rightarrow> responses \<Rightarrow> responses" where
  "normalizeQuestions rs [] normalizedResponses = normalizedResponses"
| "normalizeQuestions rs (q # qs) normalizedResponses =
     normalizeQuestions rs qs
       (normalizedResponses
          (q_id q \<mapsto> normalizeEntry (case rs (q_id q) of None \<Rightarrow> [] | Some d \<Rightarrow> d)
                           (length (q_options q))))"

text \<open>\<open>now\<close> stands for \<open>new Date().toISOString()\<close>, read from the clock at the call.\<close>

definition normalizeFormData ::
  "string \<Rightarrow> question list \<Rightarrow> responses \<Rightarrow> (string \<rightharpoonup> string) \<Rightarrow> string \<Rightarrow> submissionPayload" where
  "normalizeFormData now questions rs otherText finalComment =
     \<lparr>timestamp = now,
      p_responses = normalizeQuestions rs questions Map.empty,
      p_otherText = otherText,
      p_finalComment = finalComment\<rparr>"

subsection \<open>submitForm\<close>

definition DEFAULT_TIMEOUT_MS :: nat where
  "DEFAULT_TIMEOUT_MS = 5000"

definition DEFAULT_MAX_RETRIES :: nat where
  "DEFAULT_MAX_RETRIES = 3"

definition DEFAULT_INITIAL_RETRY_DELAY_MS :: nat where
  "DEFAULT_INITIAL_RETRY_DELAY_MS = 1000"

text \<open>What a rejected \<open>fetch\<close> throws, as far as the \<open>catch\<close> block looks at it.\<close>

record jsError =
  err_name :: string
  err_isTypeError :: bool
  err_message :: string

datatype fetchResult = FetchResolves | FetchThrows jsError

text \<open>
  The options object; an absent field takes its default. \<open>opt_onRetry\<close> tells whether a
  callback was passed.
\<close>

record submitOptions =
  opt_maxRetries :: "nat option"
  opt_timeout :: "nat option"
  opt_initialRetryDelay :: "nat option"
  opt_onRetry :: bool

text \<open>
  The effects of a call, in order: a \<open>fetch\<close> (with the attempt number), a call of
  \<open>onRetry(attempt, new Error(errorMessage), delayMs)\<close>, and \<open>await delay(delayMs)\<close>.
\<close>

datatype event =
    Fetch nat
  | OnRetry nat string nat
  | Delay nat

datatype loopExit = Returned | FellThrough "jsError option"

datatype outcome = Resolved | Rejected string

definition errorMessageOf :: "nat \<Rightarrow> jsError \<Rightarrow> string" where
  "errorMessageOf timeout error =
     (if err_name error = ''AbortError''
        then ''Request timeout after '' @ numberToString timeout @ ''ms''
      else if err_isTypeError error then ''Network error - unable to reach server''
      else err_message error)"

text \<open>
  The \<open>for (let attempt = 1; attempt <= maxRetries; attempt++)\<close> loop from \<open>attempt\<close> on.
  \<open>fetch\<close> is the network seen from the call: the result of the request made at each
  attempt.
\<close>

function retryLoop ::
  "(nat \<Rightarrow> fetchResult) \<Rightarrow> nat \<Rightarrow> nat \<Rightarrow> nat \<Rightarrow> bool \<Rightarrow> nat \<Rightarrow> jsError option
     \<Rightarrow> event list \<times> loopExit" where
  "retryLoop fetch maxRetries timeout initialRetryDelay onRetry attempt lastError =
     (if attempt \<le> maxRetries then
        (case fetch attempt of
           FetchResolves \<Rightarrow> ([Fetch attempt], Returned)
         | FetchThrows error \<Rightarrow>
             (let errorMessage = errorMessageOf timeout error;
                  isLastAttempt = (attempt = maxRetries);
                  delayMs = initialRetryDelay * attempt;
                  evs = (if \<not> isLastAttempt
                         then (if onRetry then [OnRetry attempt errorMessage delayMs] else [])
                              @ [Delay delayMs]
                         else (if onRetry then [OnRetry attempt errorMessage 0] else []));
                  rest = retryLoop fetch maxRetries timeout initialRetryDelay onRetry
                           (attempt + 1) (Some error)
              in (Fetch attempt # evs @ fst rest, snd rest)))
      else ([], FellThrough lastError))"
  by pat_completeness auto
termination
  by (relation "measure (\<lambda>(fetch, maxRetries, timeout, initialRetryDelay, onRetry, attempt, lastError).
                    Suc maxRetries - attempt)") auto

declare retryLoop.simps [simp del]

text \<open>
  \<open>fetch\<close> takes the URL, the request body, the timeout and the attempt number.
  The result is the trace of effects and how the promise settles: \<open>Resolved\<close> for
  \<open>{ success: true }\<close>, \<open>Rejected\<close> with the message of the thrown \<open>Error\<close>.
\<close>

text \<open>A destructuring default: \<open>const { field = dflt } = options\<close>.\<close>

definition orDefault :: "'a \<Rightarrow> 'a option \<Rightarrow> 'a" where
  "orDefault dflt field = (case field of None \<Rightarrow> dflt | Some x \<Rightarrow> x)"

definition submitForm ::
  "(string \<Rightarrow> 'd \<Rightarrow> nat \<Rightarrow> nat \<Rightarrow> fetchResult) \<Rightarrow> 'd \<Rightarrow> string option \<Rightarrow> submitOptions
     \<Rightarrow> event list \<times> outcome" where
  "submitForm fetch data scriptUrl options =
     (let maxRetries = orDefault DEFAULT_MAX_RETRIES (opt_maxRetries options);
          timeout = orDefault DEFAULT_TIMEOUT_MS (opt_timeout options);
          initialRetryDelay = orDefault DEFAULT_INITIAL_RETRY_DELAY_MS
                                (opt_initialRetryDelay options);
          onRetry = opt_onRetry options
      in case scriptUrl of
           None \<Rightarrow> ([], Rejected ''Google Apps Script URL is not configured'')
         | Some url \<Rightarrow>
             if url = [] then ([], Rejected ''Google Apps Script URL is not configured'')
             else
               (case retryLoop (fetch url data timeout) maxRetries timeout initialRetryDelay
                       onRetry 1 None of
                  (evs, Returned) \<Rightarrow> (evs, Resolved)
                | (evs, FellThrough lastError) \<Rightarrow>
                    (evs, Rejected
                       (''Form submission failed after '' @ numberToString maxRetries
                        @ '' attempts: ''
                        @ (case lastError of
                             None \<Rightarrow> ''Unknown error''
                           | Some e \<Rightarrow>
                               if err_message e = [] then ''Unknown error''
                               else err_message e)))))"

definition getErrorMessage :: "string \<Rightarrow> string" where
  "getErrorMessage message =
     (if str_includes message ''timeout''
        then ''The server took too long to respond. Please check your connection and try again.''
      else if str_includes message ''Network error''
        then ''Unable to connect to the server. Please check your internet connection.''
      else if str_includes message ''not configured''
        then ''Form is not properly configured. Please contact support.''
      else ''An error occurred while submitting your response. Please try again.'')"

subsection \<open>Traces\<close>

definition isFetch :: "event \<Rightarrow> bool" where
  "isFetch ev = (case ev of Fetch attempt \<Rightarrow> True | _ \<Rightarrow> False)"

definition isOnRetry :: "event \<Rightarrow> bool" where
  "isOnRetry ev = (case ev of OnRetry attempt message delayMs \<Rightarrow> True | _ \<Rightarrow> False)"

text \<open>
  Linear backoff, as the specification words it: each of the failing attempts
  \<open>a, ..., a + n - 1\<close> is followed by \<open>onRetry(k, classifiedError, delay)\<close> and a
  suspension, with \<open>delay = initialRetryDelayMs * k\<close>.
\<close>

definition linearBackoff :: "(nat \<Rightarrow> jsError) \<Rightarrow> nat \<Rightarrow> nat \<Rightarrow> nat \<Rightarrow> nat \<Rightarrow> event list" where
  "linearBackoff failure timeout initialRetryDelayMs a n =
     concat (map (\<lambda>k. [Fetch k,
                         OnRetry k (errorMessageOf timeout (failure k)) (initialRetryDelayMs * k),
                         Delay (initialRetryDelayMs * k)])
               [a..<a + n])"

text \<open>Two networks for the examples: one that fails twice and one that always times out.\<close>

definition typeError :: jsError where
  "typeError = \<lparr>err_name = ''TypeError'', err_isTypeError = True,
                 err_message = ''Failed to fetch''\<rparr>"

definition abortError :: jsError where
  "abortError = \<lparr>err_name = ''AbortError'', err_isTypeError = False,
                  err_message = ''The user aborted a request.''\<rparr>"

definition failsTwice :: "string \<Rightarrow> unit \<Rightarrow> nat \<Rightarrow> nat \<Rightarrow> fetchResult" where
  "failsTwice url body timeout attempt =
     (if attempt < 3 then FetchThrows typeError else FetchResolves)"

definition alwaysTimesOut :: "string \<Rightarrow> unit \<Rightarrow> nat \<Rightarrow> nat \<Rightarrow> fetchResult" where
  "alwaysTimesOut url body timeout attempt = FetchThrows abortError"

definition threeRetries :: submitOptions where
  "threeRetries = \<lparr>opt_maxRetries = Some 3, opt_timeout = None,
                    opt_initialRetryDelay = Some 1000, opt_onRetry = True\<rparr>"

section \<open>Properties of the rank assignment store\<close>

subsection \<open>Lookup after an update\<close>

lemma map_of_obj_set: "map_of (obj_set k v kvs) k' = (if k' = k then Some v else map_of kvs k')"
  by (induction kvs) auto

lemma obj_set_idem: "obj_set k v (obj_set k v kvs) = obj_set k v kvs"
  by (induction kvs) auto

lemma clearSameRank_Nil: "clearSameRank i r [] = []"
  by (simp add: clearSameRank_def)

lemma clearSameRank_Cons: "clearSameRank i r ((k, h) # qd) =
   (k, if k \<noteq> i \<and> h = r then [] else h) # clearSameRank i r qd"
  by (simp add: clearSameRank_def)

lemma map_of_clearSameRank:
  "map_of (clearSameRank i r qd) k =
     map_option (\<lambda>held. if k \<noteq> i \<and> held = r then [] else held) (map_of qd k)"
proof (induction qd)
  case Nil
  show ?case by (simp add: clearSameRank_Nil)
next
  case (Cons a qd)
  obtain k' h where a: "a = (k', h)" by (cases a)
  show ?case unfolding a clearSameRank_Cons using Cons.IH by simp
qed

lemma currentRank_updateRank:
  "currentRank (updateRank rs q i r) q' k =
     (if q' \<noteq> q then currentRank rs q' k
      else if k = i then r
      else if r \<noteq> [] \<and> currentRank rs q k = r then []
      else currentRank rs q k)"
proof (cases "rs q")
  case None
  then show ?thesis
    by (simp add: currentRank_def updateRank_def map_of_obj_set clearSameRank_Nil)
next
  case (Some d)
  show ?thesis
  proof (cases "map_of d k")
    case None
    with Some show ?thesis
      by (simp add: currentRank_def updateRank_def map_of_obj_set map_of_clearSameRank)
  next
    case (Some h)
    with \<open>rs q = Some d\<close> show ?thesis
      by (simp add: currentRank_def updateRank_def map_of_obj_set map_of_clearSameRank)
  qed
qed

lemma clearSameRank_obj_set:
  "clearSameRank i r (obj_set i r qd) = obj_set i r (clearSameRank i r qd)"
proof (induction qd)
  case Nil
  show ?case by (simp add: clearSameRank_Nil clearSameRank_Cons)
next
  case (Cons a qd)
  obtain k h where a: "a = (k, h)" by (cases a)
  show ?case unfolding a using Cons.IH by (simp add: clearSameRank_Cons)
qed

lemma clearSameRank_idem:
  "r \<noteq> [] \<Longrightarrow> clearSameRank i r (clearSameRank i r qd) = clearSameRank i r qd"
proof (induction qd)
  case Nil
  show ?case by (simp add: clearSameRank_Nil)
next
  case (Cons a qd)
  obtain k h where a: "a = (k, h)" by (cases a)
  show ?case unfolding a using Cons by (simp add: clearSameRank_Cons)
qed

lemma currentRank_empty: "currentRank Map.empty q i = []"
  by (simp add: currentRank_def)

lemma currentRank_updateRank_NoExempt:
  "currentRank (updateRank_NoExempt rs q i r) q' k =
     (if q' \<noteq> q then currentRank rs q' k
      else if k = i then r
      else if r \<noteq> [] \<and> r \<noteq> ''No'' \<and> currentRank rs q k = r then []
      else currentRank rs q k)"
proof (cases "rs q")
  case None
  then show ?thesis
    by (simp add: currentRank_def updateRank_NoExempt_def map_of_obj_set clearSameRank_Nil)
next
  case (Some d)
  show ?thesis
  proof (cases "map_of d k")
    case None
    with Some show ?thesis
      by (simp add: currentRank_def updateRank_NoExempt_def map_of_obj_set map_of_clearSameRank)
  next
    case (Some h)
    with \<open>rs q = Some d\<close> show ?thesis
      by (simp add: currentRank_def updateRank_NoExempt_def map_of_obj_set map_of_clearSameRank)
  qed
qed

subsection \<open>Exclusivity\<close>

lemma reachable_exclusive:
  "reachable rs \<Longrightarrow> r \<noteq> [] \<Longrightarrow> currentRank rs q i = r \<Longrightarrow> currentRank rs q j = r \<Longrightarrow> i = j"
proof (induction arbitrary: q i j r rule: reachable.induct)
  case initial
  then show ?case by (simp add: currentRank_empty)
next
  case (step rs qId optIdx rank)
  from step.prems step.IH [of r q i j] show ?case
    by (simp add: currentRank_updateRank split: if_splits)
qed

text \<open>
  Claim C2. In every state reachable from the empty state by \<open>updateRank\<close> calls, a numeric
  label \<open>"1"\<close> to \<open>"5"\<close> is held by at most one option of a question. And from any state,
  for distinct options \<open>a\<close> and \<open>b\<close> of \<open>q\<close>, assigning \<open>"3"\<close> to \<open>a\<close> and then to \<open>b\<close>
  leaves \<open>a\<close> unset and \<open>b\<close> holding \<open>"3"\<close>.
\<close>

theorem updateRank_numeric_exclusive:
  "(reachable rs \<and> rank \<in> numericLabels \<and> currentRank rs qId i = rank \<and> currentRank rs qId j = rank
      \<longrightarrow> i = j)
   \<and> (a \<noteq> b \<longrightarrow>
        currentRank (updateRank (updateRank rs0 q a ''3'') q b ''3'') q a = ''''
      \<and> currentRank (updateRank (updateRank rs0 q a ''3'') q b ''3'') q b = ''3'')"
proof -
  have "rank \<in> numericLabels \<Longrightarrow> rank \<noteq> []"
    by (auto simp: numericLabels_def)
  then show ?thesis
    using reachable_exclusive [of rs rank qId i j]
    by (auto simp: currentRank_updateRank)
qed

theorem updateRank_numeric_exclusive_witness:
  "reachable (updateRank (updateRank Map.empty ''q1'' 0 ''3'') ''q1'' 1 ''3'')
   \<and> ''3'' \<in> numericLabels
   \<and> currentRank (updateRank (updateRank Map.empty ''q1'' 0 ''3'') ''q1'' 1 ''3'') ''q1'' 1 = ''3''
   \<and> (0::nat) \<noteq> 1
   \<and> currentRank (updateRank (updateRank Map.empty ''q1'' 0 ''3'') ''q1'' 1 ''3'') ''q1'' 0 = ''''"
proof -
  have r: "reachable (updateRank (updateRank Map.empty ''q1'' 0 ''3'') ''q1'' 1 ''3'')"
    by (intro reachable.intros)
  have n: "''3'' \<in> numericLabels"
    by (simp add: numericLabels_def)
  have ne: "(0::nat) \<noteq> 1" by simp
  from updateRank_numeric_exclusive [of _ _ _ _ _ "0::nat" 1 Map.empty "''q1''"] ne
  have c: "currentRank (updateRank (updateRank Map.empty ''q1'' 0 ''3'') ''q1'' 1 ''3'') ''q1'' 0 = ''''
     \<and> currentRank (updateRank (updateRank Map.empty ''q1'' 0 ''3'') ''q1'' 1 ''3'') ''q1'' 1 = ''3''"
    by blast
  with r n ne show ?thesis by blast
qed

subsection \<open>The label "No"\<close>





text \<open>
  The numeric labels stay exclusive under the second copy, and it is idempotent as well:
  the two copies differ on \<open>"No"\<close> only.
\<close>

lemma reachable_NoExempt_exclusive:
  "reachable_NoExempt rs \<Longrightarrow> r \<in> numericLabels \<Longrightarrow>
   currentRank rs q i = r \<Longrightarrow> currentRank rs q j = r \<Longrightarrow> i = j"
proof (induction arbitrary: q i j r rule: reachable_NoExempt.induct)
  case initial
  then show ?case by (auto simp: currentRank_empty numericLabels_def)
next
  case (step rs qId optIdx rank)
  from step.prems(1) have "r \<noteq> []" and "r \<noteq> ''No''"
    by (auto simp: numericLabels_def)
  with step.prems step.IH [of r q i j] show ?case
    by (simp add: currentRank_updateRank_NoExempt split: if_splits)
qed

lemma updateRank_NoExempt_idempotent:
  "updateRank_NoExempt (updateRank_NoExempt rs qId optIdx rank) qId optIdx rank
     = updateRank_NoExempt rs qId optIdx rank"
  by (simp add: updateRank_NoExempt_def Let_def obj_set_idem clearSameRank_obj_set
        clearSameRank_idem)

subsection \<open>Idempotence\<close>

text \<open>
  Claim C9. Applying \<open>updateRank\<close> with the same question, option and label twice in a row
  gives the same state as applying it once, for every state, option index and label.
\<close>

theorem updateRank_idempotent:
  "updateRank (updateRank rs qId optIdx rank) qId optIdx rank = updateRank rs qId optIdx rank"
  by (simp add: updateRank_def Let_def obj_set_idem clearSameRank_obj_set clearSameRank_idem)

section \<open>Properties of the sanitizer\<close>

subsection \<open>Steps of the pipeline\<close>

lemma str_includes_sublist: "str_includes s sub \<longleftrightarrow> sublist sub s"
  by (induction s) (simp_all add: sublist_Cons_right)

lemma length_removeDangerous: "length (removeDangerous s) \<le> length s"
proof (induction s rule: removeDangerous.induct)
  case 1
  show ?case by simp
next
  case (2 c cs)
  show ?case
  proof (cases "matchHere (c # cs)")
    case None
    with 2(1) show ?thesis by simp
  next
    case (Some p)
    with 2(2) [OF Some] show ?thesis by simp
  qed
qed

lemma subseq_removeDangerous: "subseq (removeDangerous s) s"
proof (induction s rule: removeDangerous.induct)
  case 1
  show ?case by simp
next
  case (2 c cs)
  show ?case
  proof (cases "matchHere (c # cs)")
    case None
    with 2(1) show ?thesis by simp
  next
    case (Some p)
    have "sublist (drop (length p - 1) cs) cs"
      by (rule sublist_drop)
    then have "subseq (drop (length p - 1) cs) cs"
      by (rule sublist_imp_subseq)
    with 2(2) [OF Some] have "subseq (removeDangerous (drop (length p - 1) cs)) cs"
      by (rule subseq_order.order_trans)
    then have "subseq (removeDangerous (drop (length p - 1) cs)) (c # cs)"
      by (rule list_emb_Cons)
    with Some show ?thesis by simp
  qed
qed

lemma length_slice0: "0 \<le> n \<Longrightarrow> length (slice0 s n) \<le> nat n"
  by (simp add: slice0_def)

lemma sublist_slice0: "sublist (slice0 s n) s"
  by (simp add: slice0_def)

lemma sublist_trim: "sublist (trim s) s"
proof -
  have "sublist (dropWhile isWhiteSpace (rev (dropWhile isWhiteSpace s))) (rev (dropWhile isWhiteSpace s))"
    by (rule sublist_dropWhile)
  then have "sublist (trim s) (dropWhile isWhiteSpace s)"
    by (simp add: trim_def sublist_rev_left)
  moreover have "sublist (dropWhile isWhiteSpace s) s"
    by (rule sublist_dropWhile)
  ultimately show ?thesis
    by (rule sublist_order.order_trans)
qed

lemma trim_decomposition:
  "\<exists>l r. s = l @ trim s @ r \<and> (\<forall>c \<in> set l. isWhiteSpace c) \<and> (\<forall>c \<in> set r. isWhiteSpace c)"
proof -
  let ?t = "dropWhile isWhiteSpace s"
  let ?u = "rev ?t"
  have "?u = takeWhile isWhiteSpace ?u @ dropWhile isWhiteSpace ?u"
    by simp
  then have "rev ?u = rev (dropWhile isWhiteSpace ?u) @ rev (takeWhile isWhiteSpace ?u)"
    by (metis rev_append)
  then have t: "?t = trim s @ rev (takeWhile isWhiteSpace ?u)"
    by (simp add: trim_def)
  have "s = takeWhile isWhiteSpace s @ ?t"
    by simp
  with t have "s = takeWhile isWhiteSpace s @ trim s @ rev (takeWhile isWhiteSpace ?u)"
    by simp
  moreover have "\<forall>c \<in> set (takeWhile isWhiteSpace s). isWhiteSpace c"
    by (auto dest: set_takeWhileD)
  moreover have "\<forall>c \<in> set (rev (takeWhile isWhiteSpace ?u)). isWhiteSpace c"
    by (auto dest: set_takeWhileD)
  ultimately show ?thesis by blast
qed

lemma trim_ends:
  assumes "trim s \<noteq> []"
  shows "\<not> isWhiteSpace (hd (trim s)) \<and> \<not> isWhiteSpace (last (trim s))"
proof -
  let ?t = "dropWhile isWhiteSpace s"
  let ?d = "dropWhile isWhiteSpace (rev ?t)"
  from assms have d: "?d \<noteq> []"
    by (simp add: trim_def)
  then have "\<not> isWhiteSpace (hd ?d)"
    by (rule hd_dropWhile)
  then have l: "\<not> isWhiteSpace (last (trim s))"
    using d by (simp add: trim_def last_rev)
  from d have t: "?t \<noteq> []"
    by (cases "dropWhile isWhiteSpace s = []") simp_all
  then have h: "\<not> isWhiteSpace (hd ?t)"
    by (rule hd_dropWhile)
  have "rev ?t = takeWhile isWhiteSpace (rev ?t) @ ?d"
    by simp
  then have "rev (rev ?t) = rev ?d @ rev (takeWhile isWhiteSpace (rev ?t))"
    by (metis rev_append)
  then have "?t = trim s @ rev (takeWhile isWhiteSpace (rev ?t))"
    by (simp add: trim_def)
  with assms have "hd ?t = hd (trim s)"
    by (metis hd_append2)
  with h l show ?thesis by simp
qed

lemma sanitizeTextInput_string:
  "sanitizeTextInput (JSString s) m =
     removeDangerous (slice0 (trim s) (case m of None \<Rightarrow> MAX_TEXT_LENGTH | Some n \<Rightarrow> n))"
  by (cases "s = []") (simp_all add: sanitizeTextInput_def trim_def slice0_def)

lemma sanitizeTextInput_non_string:
  assumes "\<forall>s. v \<noteq> JSString s"
  shows "sanitizeTextInput v m = []"
proof (cases v)
  case (JSString s)
  with assms show ?thesis by blast
qed (simp_all add: sanitizeTextInput_def)

lemma length_sanitizeTextInput:
  assumes "0 \<le> n"
  shows "length (sanitizeTextInput v (Some n)) \<le> nat n"
proof (cases v)
  case (JSString s)
  have "length (removeDangerous (slice0 (trim s) n)) \<le> length (slice0 (trim s) n)"
    by (rule length_removeDangerous)
  also have "\<dots> \<le> nat n"
    using assms by (rule length_slice0)
  finally show ?thesis
    by (simp add: JSString sanitizeTextInput_string)
qed (simp_all add: sanitizeTextInput_def)

lemma subseq_sanitizeTextInput: "subseq (sanitizeTextInput (JSString s) m) s"
proof -
  let ?n = "case m of None \<Rightarrow> MAX_TEXT_LENGTH | Some n \<Rightarrow> n"
  have "sublist (slice0 (trim s) ?n) s"
    using sublist_slice0 sublist_trim by (rule sublist_order.order_trans)
  then have "subseq (slice0 (trim s) ?n) s"
    by (rule sublist_imp_subseq)
  with subseq_removeDangerous [of "slice0 (trim s) ?n"] show ?thesis
    unfolding sanitizeTextInput_string by (rule subseq_order.order_trans)
qed

subsection \<open>The examples of the specification\<close>

lemma matchHere_a: "matchHere (CHR ''a'' # cs) = None"
  by (simp add: matchHere_def dangerousPatterns_def asciiUpper_def)

lemma removeDangerous_replicate_a:
  "removeDangerous (replicate n CHR ''a'') = replicate n CHR ''a''"
  by (induction n) (simp_all add: matchHere_a)

lemma trim_replicate_a: "trim (replicate n CHR ''a'') = replicate n CHR ''a''"
  by (simp add: trim_def dropWhile_replicate isWhiteSpace_def)

lemma sanitize_long_example:
  "length (sanitizeTextInput (JSString (replicate 10000 CHR ''a'')) (Some 5000)) = 5000"
  by (simp add: sanitizeTextInput_string trim_replicate_a slice0_def removeDangerous_replicate_a)

lemma sanitize_script_example:
  "sanitizeTextInput (JSString ''<script>alert(1)</script>hello'') None = ''>alert(1)</script>hello''"
  by code_simp

lemma sanitize_hi_example: "sanitizeTextInput (JSString ''  hi  '') None = ''hi''"
  by code_simp

subsection \<open>The scan and the banned patterns\<close>

lemma asciiUpper_table:
  "asciiUpper c = (case map_of (zip lowerLetters upperLetters) c of None \<Rightarrow> c | Some u \<Rightarrow> u)"
  by (simp only: asciiUpper_def lowerLetters_def upperLetters_def)

lemma table_other:
  "c \<notin> set ks \<Longrightarrow> (case map_of (zip ks vs) c of None \<Rightarrow> c | Some u \<Rightarrow> u) = c"
proof -
  assume "c \<notin> set ks"
  then have "c \<notin> fst ` set (zip ks vs)"
    by (auto dest: set_zip_leftD)
  then have "map_of (zip ks vs) c = None"
    by (simp add: map_of_eq_None_iff)
  then show ?thesis by simp
qed

lemma asciiUpper_other: "c \<notin> set lowerLetters \<Longrightarrow> asciiUpper c = c"
  unfolding asciiUpper_table by (rule table_other)

lemma toLowerAscii_other: "c \<notin> set upperLetters \<Longrightarrow> toLowerAscii c = c"
  unfolding toLowerAscii_def by (rule table_other)

lemma letters_fold: "list_all foldsAlike (lowerLetters @ upperLetters)"
  by code_simp

lemma case_fold: "foldsAlike c"
proof (cases "c \<in> set (lowerLetters @ upperLetters)")
  case True
  with letters_fold show ?thesis
    by (simp only: list_all_iff)
next
  case False
  then have "c \<notin> set lowerLetters" and "c \<notin> set upperLetters"
    by simp_all
  then show ?thesis
    by (simp add: foldsAlike_def asciiUpper_other toLowerAscii_other)
qed

lemma asciiUpper_eq_iff: "asciiUpper a = asciiUpper c \<longleftrightarrow> toLowerAscii a = toLowerAscii c"
proof
  assume "asciiUpper a = asciiUpper c"
  then have "toLowerAscii (asciiUpper a) = toLowerAscii (asciiUpper c)" by (rule arg_cong)
  with case_fold [of a] case_fold [of c] show "toLowerAscii a = toLowerAscii c"
    by (simp only: foldsAlike_def)
next
  assume "toLowerAscii a = toLowerAscii c"
  then have "asciiUpper (toLowerAscii a) = asciiUpper (toLowerAscii c)" by (rule arg_cong)
  with case_fold [of a] case_fold [of c] show "asciiUpper a = asciiUpper c"
    by (simp only: foldsAlike_def)
qed

lemma matchesAt_iff: "matchesAt p s \<longleftrightarrow> sameIgnoringCase (take (length p) s) p"
proof (induction p s rule: matchesAt.induct)
  case (1 s)
  show ?case by (simp add: sameIgnoringCase_def)
next
  case (2 p ps)
  show ?case by (simp add: sameIgnoringCase_def)
next
  case (3 p ps c cs)
  then show ?case
    by (auto simp: sameIgnoringCase_def asciiUpper_eq_iff)
qed

lemma dangerousPatterns_banned: "dangerousPatterns = bannedPatterns"
  by (simp only: dangerousPatterns_def bannedPatterns_def)

lemma matchHere_None_iff: "matchHere s = None \<longleftrightarrow> \<not> startsWithBanned s"
  by (auto simp: matchHere_def find_None_iff startsWithBanned_def list_ex_iff
        dangerousPatterns_banned matchesAt_iff)

lemma matchHere_SomeD:
  "matchHere s = Some p \<Longrightarrow> p \<in> set bannedPatterns \<and> sameIgnoringCase (take (length p) s) p"
  by (auto simp: matchHere_def find_Some_iff dangerousPatterns_banned matchesAt_iff)

lemma banned_distinct_heads:
  "list_all (\<lambda>p. 2 \<le> length p \<and> list_all (\<lambda>q. firstTwo p = firstTwo q \<longrightarrow> p = q) bannedPatterns)
     bannedPatterns"
  by code_simp

lemma banned_long: "p \<in> set bannedPatterns \<Longrightarrow> 2 \<le> length p"
  using banned_distinct_heads by (simp add: list_all_iff)

lemma banned_heads:
  "p \<in> set bannedPatterns \<Longrightarrow> q \<in> set bannedPatterns \<Longrightarrow> firstTwo p = firstTwo q \<Longrightarrow> p = q"
  using banned_distinct_heads by (simp add: list_all_iff)

lemma sameIgnoringCase_length: "sameIgnoringCase u p \<Longrightarrow> length u = length p"
  unfolding sameIgnoringCase_def by (rule map_eq_imp_length_eq)

lemma firstTwo_of_match:
  assumes "p \<in> set bannedPatterns" and "sameIgnoringCase (take (length p) s) p"
  shows "firstTwo s = firstTwo p"
proof -
  from assms(1) have l: "2 \<le> length p" by (rule banned_long)
  from assms(2) have "map toLowerAscii (take (length p) s) = map toLowerAscii p"
    by (simp add: sameIgnoringCase_def)
  then have "take 2 (map toLowerAscii (take (length p) s)) = take 2 (map toLowerAscii p)"
    by simp
  with l show ?thesis
    by (simp add: firstTwo_def take_map min_def)
qed

lemma banned_match_unique:
  assumes "p \<in> set bannedPatterns" and "sameIgnoringCase (take (length p) s) p"
    and "q \<in> set bannedPatterns" and "sameIgnoringCase (take (length q) s) q"
  shows "p = q"
proof -
  have "firstTwo p = firstTwo q"
    using firstTwo_of_match [OF assms(1,2)] firstTwo_of_match [OF assms(3,4)] by simp
  with assms(1,3) show ?thesis by (rule banned_heads)
qed

lemma removeDangerous_keeps:
  "\<not> startsWithBanned (c # cs) \<Longrightarrow> removeDangerous (c # cs) = c # removeDangerous cs"
  by (simp add: matchHere_None_iff [symmetric])

lemma removeDangerous_deletes:
  assumes "p \<in> set bannedPatterns" and "sameIgnoringCase u p"
  shows "removeDangerous (u @ rest) = removeDangerous rest"
proof -
  from assms have len: "length u = length p" and l2: "2 \<le> length p"
    by (simp_all add: sameIgnoringCase_length banned_long)
  then obtain c u' where u: "u = c # u'"
    by (cases u) auto
  from len have t: "take (length p) (u @ rest) = u"
    by simp
  with assms have here: "sameIgnoringCase (take (length p) (u @ rest)) p"
    by simp
  with assms(1) have "startsWithBanned (u @ rest)"
    unfolding startsWithBanned_def list_ex_iff by blast
  then obtain q where q: "matchHere (u @ rest) = Some q"
    using matchHere_None_iff [of "u @ rest"] by (cases "matchHere (u @ rest)") auto
  from matchHere_SomeD [OF q] assms(1) here have "q = p"
    by (blast intro: banned_match_unique)
  with q have "matchHere (c # u' @ rest) = Some p"
    by (simp add: u)
  moreover from len have "drop (length p - 1) (u' @ rest) = rest"
    by (simp add: u)
  ultimately show ?thesis
    by (simp add: u)
qed

lemma removeDangerous_unchanged_iff: "removeDangerous s = s \<longleftrightarrow> \<not> containsBanned s"
proof (induction s)
  case Nil
  show ?case by simp
next
  case (Cons c cs)
  show ?case
  proof (cases "matchHere (c # cs)")
    case None
    then have "\<not> startsWithBanned (c # cs)"
      by (simp add: matchHere_None_iff)
    with None Cons.IH show ?thesis by simp
  next
    case (Some p)
    then have b: "startsWithBanned (c # cs)"
      using matchHere_None_iff [of "c # cs"] by simp
    have "length (removeDangerous (drop (length p - 1) cs)) \<le> length (drop (length p - 1) cs)"
      by (rule length_removeDangerous)
    then have "length (removeDangerous (c # cs)) < length (c # cs)"
      by (simp add: Some)
    then have "removeDangerous (c # cs) \<noteq> c # cs"
      by (metis less_irrefl)
    with b show ?thesis by simp
  qed
qed

lemma startsWithBanned_prefix:
  "startsWithBanned s \<longleftrightarrow> (\<exists>p \<in> set bannedPatterns. \<exists>u. prefix u s \<and> sameIgnoringCase u p)"
proof
  assume "startsWithBanned s"
  then obtain p where "p \<in> set bannedPatterns" and "sameIgnoringCase (take (length p) s) p"
    unfolding startsWithBanned_def list_ex_iff by blast
  moreover have "prefix (take (length p) s) s"
    by (rule take_is_prefix)
  ultimately show "\<exists>p \<in> set bannedPatterns. \<exists>u. prefix u s \<and> sameIgnoringCase u p"
    by blast
next
  assume "\<exists>p \<in> set bannedPatterns. \<exists>u. prefix u s \<and> sameIgnoringCase u p"
  then obtain p u where p: "p \<in> set bannedPatterns" and u: "prefix u s" "sameIgnoringCase u p"
    by blast
  from u(1) obtain r where "s = u @ r" by (auto simp: prefix_def)
  with u(2) have "take (length p) s = u"
    by (simp add: sameIgnoringCase_length)
  with p u(2) show "startsWithBanned s"
    unfolding startsWithBanned_def list_ex_iff by blast
qed

lemma containsBanned_sublist:
  "containsBanned s \<longleftrightarrow> (\<exists>p \<in> set bannedPatterns. \<exists>u. sublist u s \<and> sameIgnoringCase u p)"
proof (induction s)
  case Nil
  have "\<not> sameIgnoringCase [] p" if "p \<in> set bannedPatterns" for p
    using banned_long [OF that] sameIgnoringCase_length [of "[]" p] by auto
  then show ?case by auto
next
  case (Cons c cs)
  show ?case
    unfolding containsBanned.simps Cons.IH startsWithBanned_prefix sublist_Cons_right
    by blast
qed

lemma sanitize_mixed_case_example:
  "sanitizeTextInput (JSString ''<IFrame src=JavaScript:x OnError=y><SCRIPT>'') None
     = '' src=x y>>''"
  by code_simp

lemma sanitizeTextInput_unchanged_iff:
  "sanitizeTextInput (JSString s) m
     = slice0 (trim s) (case m of None \<Rightarrow> 5000 | Some n \<Rightarrow> n)
   \<longleftrightarrow> \<not> containsBanned (slice0 (trim s) (case m of None \<Rightarrow> 5000 | Some n \<Rightarrow> n))"
proof -
  have "sanitizeTextInput (JSString s) m =
       removeDangerous (slice0 (trim s) (case m of None \<Rightarrow> 5000 | Some n \<Rightarrow> n))"
    by (cases m) (simp_all add: sanitizeTextInput_string MAX_TEXT_LENGTH_def)
  then show ?thesis
    by (simp only: removeDangerous_unchanged_iff)
qed

text \<open>
  Claim C8. \<open>sanitizeTextInput\<close> returns a string for every input value: none of its
  steps can throw, so the model has no error result. A value that is not a string gives the
  empty string. A string is trimmed, cut to \<open>maxLength\<close> (5000 by default, 10000 for
  comments) and scanned once to delete the four patterns, so the result is a subsequence
  of the input and no longer than a non-negative \<open>maxLength\<close>. The scan obeys the
  specification's patterns: where the text starts with \<open><script\<close>, \<open><iframe\<close>,
  \<open>javascript:\<close> or \<open>onerror=\<close> in any mix of cases, that occurrence is deleted and the
  scan goes on behind it; where it starts with none of them, the character is kept; and
  the trimmed and cut text comes out unchanged iff it contains none of the four patterns
  in any case. In particular the result for \<open><script>alert(1)</script>hello\<close> does not
  contain \<open><script\<close>, \<open>null\<close> gives the empty string, 10000 letters \<open>a\<close> at \<open>maxLength\<close>
  5000 give 5000 characters, \<open>"  hi  "\<close> gives \<open>"hi"\<close>, and a text with all four
  patterns in mixed case loses all four.
\<close>

theorem sanitizeTextInput_postconditions:
  "((\<forall>s. v \<noteq> JSString s) \<longrightarrow> sanitizeTextInput v m = '''')
   \<and> sanitizeTextInput (JSString s) m =
       removeDangerous (slice0 (trim s) (case m of None \<Rightarrow> 5000 | Some n \<Rightarrow> n))
   \<and> subseq (sanitizeTextInput (JSString s) m) s
   \<and> (0 \<le> n \<longrightarrow> length (sanitizeTextInput w (Some n)) \<le> nat n)
   \<and> length (sanitizeTextInput w None) \<le> 5000
   \<and> sanitizeCommentInput w = sanitizeTextInput w (Some 10000)
   \<and> \<not> str_includes (sanitizeTextInput (JSString ''<script>alert(1)</script>hello'') None) ''<script''
   \<and> sanitizeTextInput JSNull None = ''''
   \<and> length (sanitizeTextInput (JSString (replicate 10000 CHR ''a'')) (Some 5000)) = 5000
   \<and> sanitizeTextInput (JSString ''  hi  '') None = ''hi''
   \<and> (list_ex (sameIgnoringCase u) bannedPatterns \<longrightarrow>
         removeDangerous (u @ rest) = removeDangerous rest)
   \<and> (\<not> startsWithBanned (c # cs) \<longrightarrow> removeDangerous (c # cs) = c # removeDangerous cs)
   \<and> (containsBanned t \<longleftrightarrow>
         (\<exists>p \<in> set bannedPatterns. \<exists>occ. sublist occ t \<and> sameIgnoringCase occ p))
   \<and> (sanitizeTextInput (JSString s) m
         = slice0 (trim s) (case m of None \<Rightarrow> 5000 | Some n \<Rightarrow> n)
       \<longleftrightarrow> \<not> containsBanned (slice0 (trim s) (case m of None \<Rightarrow> 5000 | Some n \<Rightarrow> n)))
   \<and> sanitizeTextInput (JSString ''<IFrame src=JavaScript:x OnError=y><SCRIPT>'') None
       = '' src=x y>>''"
proof -
  have c1: "(\<forall>s. v \<noteq> JSString s) \<longrightarrow> sanitizeTextInput v m = ''''"
    using sanitizeTextInput_non_string [of v m] by blast
  have c2: "sanitizeTextInput (JSString s) m =
       removeDangerous (slice0 (trim s) (case m of None \<Rightarrow> 5000 | Some n \<Rightarrow> n))"
    by (cases m) (simp_all add: sanitizeTextInput_string MAX_TEXT_LENGTH_def)
  have c3: "0 \<le> n \<longrightarrow> length (sanitizeTextInput w (Some n)) \<le> nat n"
    using length_sanitizeTextInput [of n w] by blast
  have "sanitizeTextInput w None = sanitizeTextInput w (Some 5000)"
    by (simp add: sanitizeTextInput_def MAX_TEXT_LENGTH_def)
  with length_sanitizeTextInput [of 5000 w]
  have c4: "length (sanitizeTextInput w None) \<le> 5000"
    by simp
  have c5: "sanitizeCommentInput w = sanitizeTextInput w (Some 10000)"
    by (simp add: sanitizeCommentInput_def MAX_COMMENT_LENGTH_def)
  have c6: "\<not> str_includes (sanitizeTextInput (JSString ''<script>alert(1)</script>hello'') None) ''<script''"
    unfolding sanitize_script_example by code_simp
  have c7: "sanitizeTextInput JSNull None = ''''"
    by (simp add: sanitizeTextInput_def)
  have c8: "list_ex (sameIgnoringCase u) bannedPatterns \<longrightarrow>
         removeDangerous (u @ rest) = removeDangerous rest"
    unfolding list_ex_iff using removeDangerous_deletes [of _ u rest] by blast
  have c9: "\<not> startsWithBanned (c # cs) \<longrightarrow> removeDangerous (c # cs) = c # removeDangerous cs"
    using removeDangerous_keeps [of c cs] by blast
  note c10 = containsBanned_sublist [of t]
  note c11 = sanitizeTextInput_unchanged_iff [of s m]
  from c1 c2 subseq_sanitizeTextInput [of s m] c3 c4 c5 c6 c7 sanitize_long_example
    sanitize_hi_example c8 c9 c10 c11 sanitize_mixed_case_example
  show ?thesis by (intro conjI)
qed

theorem sanitizeTextInput_postconditions_witness:
  "(\<forall>s. JSNull \<noteq> JSString s) \<and> sanitizeTextInput JSNull (Some 4) = ''''
   \<and> (0::int) \<le> 4
   \<and> length (sanitizeTextInput (JSString ''  <ScRipt>hi  '') (Some 4)) \<le> nat 4
   \<and> sanitizeTextInput (JSString ''  <ScRipt>hi  '') (Some 4) = ''<ScR''
   \<and> list_ex (sameIgnoringCase ''OnError='') bannedPatterns
   \<and> removeDangerous (''OnError='' @ ''x'') = removeDangerous ''x''
   \<and> \<not> startsWithBanned (CHR ''h'' # ''i'')
   \<and> removeDangerous (CHR ''h'' # ''i'') = CHR ''h'' # removeDangerous ''i''
   \<and> sanitizeTextInput (JSString ''  <ScRipt>hi  '') (Some 9) = ''>h''"
proof -
  have h1: "\<forall>s. JSNull \<noteq> JSString s" by simp
  have h2: "(0::int) \<le> 4" by simp
  have h3: "list_ex (sameIgnoringCase ''OnError='') bannedPatterns" by code_simp
  have h4: "\<not> startsWithBanned (CHR ''h'' # ''i'')" by code_simp
  have e: "sanitizeTextInput (JSString ''  <ScRipt>hi  '') (Some 4) = ''<ScR''"
    by code_simp
  have e9: "sanitizeTextInput (JSString ''  <ScRipt>hi  '') (Some 9) = ''>h''"
    by code_simp
  note t = sanitizeTextInput_postconditions [where v = JSNull and m = "Some 4" and n = 4
      and w = "JSString ''  <ScRipt>hi  ''" and u = "''OnError=''" and rest = "''x''"
      and c = "CHR ''h''" and cs = "''i''"]
  from t [THEN conjunct1] h1 have a: "sanitizeTextInput JSNull (Some 4) = ''''"
    by (rule mp)
  note t4 = t [THEN conjunct2, THEN conjunct2, THEN conjunct2]
  from t4 [THEN conjunct1] h2
  have b: "length (sanitizeTextInput (JSString ''  <ScRipt>hi  '') (Some 4)) \<le> nat 4"
    by (rule mp)
  note t11 = t4 [THEN conjunct2, THEN conjunct2, THEN conjunct2, THEN conjunct2,
      THEN conjunct2, THEN conjunct2, THEN conjunct2]
  from t11 [THEN conjunct1] h3
  have d: "removeDangerous (''OnError='' @ ''x'') = removeDangerous ''x''"
    by (rule mp)
  from t11 [THEN conjunct2, THEN conjunct1] h4
  have k: "removeDangerous (CHR ''h'' # ''i'') = CHR ''h'' # removeDangerous ''i''"
    by (rule mp)
  from h1 a h2 b e h3 d h4 k e9 show ?thesis
    by (intro conjI)
qed

text \<open>
  Claim C10. The patterns are deleted in one pass, so deleting an embedded occurrence can
  splice its neighbours into a new one: for the input \<open><scr<scriptipt\<close> the result is
  \<open><script\<close>, which is one of the patterns. So there is a string whose sanitized form
  still contains a banned substring.
\<close>

theorem sanitizeTextInput_single_pass_splices:
  "sanitizeTextInput (JSString ''<scr<scriptipt'') None = ''<script''
   \<and> ''<script'' \<in> set dangerousPatterns
   \<and> (\<exists>s. str_includes (sanitizeTextInput (JSString s) None) ''<script'')"
proof (intro conjI)
  show e: "sanitizeTextInput (JSString ''<scr<scriptipt'') None = ''<script''"
    by code_simp
  show "''<script'' \<in> set dangerousPatterns"
    by code_simp
  have "str_includes ''<script'' ''<script''"
    by code_simp
  then have inc: "str_includes (sanitizeTextInput (JSString ''<scr<scriptipt'') None) ''<script''"
    by (simp only: e)
  show "\<exists>s. str_includes (sanitizeTextInput (JSString s) None) ''<script''"
    by (rule exI [where x = "''<scr<scriptipt''"]) (rule inc)
qed

section \<open>Properties of validation\<close>

lemma fst_set_obj_set: "fst ` set (obj_set k v kvs) = insert k (fst ` set kvs)"
proof (induction kvs)
  case Nil
  show ?case by simp
next
  case (Cons a kvs)
  obtain k' v' where a: "a = (k', v')" by (cases a)
  show ?case
    unfolding a using Cons.IH by (simp add: insert_commute)
qed

lemma sorted_obj_set:
  "sorted_wrt (<) (map fst kvs) \<Longrightarrow> sorted_wrt (<) (map fst (obj_set k v kvs))"
proof (induction kvs)
  case Nil
  show ?case by simp
next
  case (Cons a kvs)
  obtain k' v' where a: "a = (k', v')" by (cases a)
  from Cons.prems have tl: "sorted_wrt (<) (map fst kvs)" and hd: "\<forall>x \<in> fst ` set kvs. k' < x"
    unfolding a by auto
  have "\<forall>x \<in> fst ` set (obj_set k v kvs). k' < x" if "k' < k"
    using hd that by (simp add: fst_set_obj_set)
  with Cons.IH [OF tl] tl hd show ?case
    unfolding a by (auto simp: image_iff)
qed

lemma map_fst_clearSameRank: "map fst (clearSameRank i r qd) = map fst qd"
  by (induction qd) (auto simp: clearSameRank_def)

lemma reachable_objectsWellFormed: "reachable rs \<Longrightarrow> objectsWellFormed rs"
proof (induction rule: reachable.induct)
  case initial
  show ?case by (simp add: objectsWellFormed_def)
next
  case (step rs qId optIdx rank)
  then show ?case
    unfolding objectsWellFormed_def updateRank_def Let_def
    by (auto simp: sorted_obj_set map_fst_clearSameRank split: option.splits if_splits)
qed

lemma validateQuestions_eq:
  "validateQuestions rs qs idx errs =
     errs @ map (\<lambda>(idx, q). QuestionError (q_id q) idx (questionMessage idx q))
              (filter (\<lambda>(idx, q). \<not> hasAnyRank (rs (q_id q))) (enumerate idx qs))"
  by (induction qs arbitrary: idx errs) simp_all

lemma hasAnyRank_currentRank:
  assumes "objectsWellFormed rs"
  shows "hasAnyRank (rs qId) \<longleftrightarrow> (\<exists>i. currentRank rs qId i \<noteq> '''')"
proof (cases "rs qId")
  case None
  then show ?thesis by (simp add: hasAnyRank_def currentRank_def)
next
  case (Some d)
  with assms have "sorted_wrt (<) (map fst d)"
    by (simp add: objectsWellFormed_def)
  then have dist: "distinct (map fst d)"
    by (simp add: strict_sorted_iff)
  have "(\<exists>rank \<in> set (map snd d). rank \<noteq> []) \<longleftrightarrow> (\<exists>i held. map_of d i = Some held \<and> held \<noteq> [])"
    using dist by (force simp: map_of_eq_Some_iff)
  also have "\<dots> \<longleftrightarrow> (\<exists>i. currentRank rs qId i \<noteq> [])"
    by (auto simp: currentRank_def Some split: option.splits)
  finally show ?thesis
    by (simp add: hasAnyRank_def Some list_ex_iff)
qed

lemma hasAnyRank_answered:
  assumes "objectsWellFormed rs" and "withinOptions questions rs" and "q \<in> set questions"
  shows "hasAnyRank (rs (q_id q)) \<longleftrightarrow> answered rs q"
  using assms(2,3) unfolding hasAnyRank_currentRank [OF assms(1)] answered_def withinOptions_def
  by blast

lemma trim_Nil: "trim [] = []"
  by (simp add: trim_def)

text \<open>
  Claim C3. On a well-formed state, \<open>validateForm\<close> returns exactly the expected errors:
  a question counts as answered iff one of its options holds a non-empty label, each
  unanswered question gives a \<open>question\<close> error in question order carrying the first 50
  characters of its text, the \<open>final-comment\<close> error comes last and is present iff the
  comment is empty or white space, and \<open>isValid\<close> holds iff there is no error. A single
  option marked \<open>"No"\<close> makes its question answered.
\<close>

theorem validateForm_correct:
  assumes "objectsWellFormed rs" and "withinOptions questions rs"
  shows "errors (validateForm questions rs finalComment) = expectedErrors questions rs finalComment
       \<and> isValid (validateForm questions rs finalComment)
           = (errors (validateForm questions rs finalComment) = [])
       \<and> (i < length (q_options q) \<longrightarrow> answered (updateRank Map.empty (q_id q) i ''No'') q)"
proof -
  have f: "filter (\<lambda>(idx, q). \<not> hasAnyRank (rs (q_id q))) (enumerate 0 questions)
         = filter (\<lambda>(idx, q). \<not> answered rs q) (enumerate 0 questions)"
  proof (rule filter_cong [OF refl])
    fix p assume "p \<in> set (enumerate 0 questions)"
    then have "(fst p, snd p) \<in> set (zip [0..<0 + length questions] questions)"
      by (simp add: enumerate_eq_zip)
    then have "snd p \<in> set questions"
      by (rule set_zip_rightD)
    then show "(case p of (idx, q) \<Rightarrow> \<not> hasAnyRank (rs (q_id q)))
             = (case p of (idx, q) \<Rightarrow> \<not> answered rs q)"
      using hasAnyRank_answered [OF assms, of "snd p"] by (simp add: case_prod_beta)
  qed
  have c: "(finalComment = [] \<or> trim finalComment = []) = blankComment finalComment"
    by (auto simp: blankComment_def trim_Nil)
  have e: "errors (validateForm questions rs finalComment) = expectedErrors questions rs finalComment"
    unfolding validateForm_def Let_def c expectedErrors_def
    by (simp add: validateQuestions_eq f questionMessage_def)
  have v: "isValid (validateForm questions rs finalComment)
           = (errors (validateForm questions rs finalComment) = [])"
    by (simp add: validateForm_def Let_def)
  have n: "i < length (q_options q) \<longrightarrow> answered (updateRank Map.empty (q_id q) i ''No'') q"
    unfolding answered_def by (auto simp: currentRank_updateRank)
  from e v n show ?thesis by blast
qed

theorem validateForm_correct_witness:
  "objectsWellFormed (updateRank Map.empty ''q1'' 0 ''No'')
   \<and> withinOptions twoQuestions (updateRank Map.empty ''q1'' 0 ''No'')
   \<and> errors (validateForm twoQuestions (updateRank Map.empty ''q1'' 0 ''No'') ''  '')
       = [QuestionError ''q2'' 1 ''Question 2: What is your favorite animal?...'',
          FinalCommentError ''Final Comments: Please share your recommendations'']
   \<and> \<not> isValid (validateForm twoQuestions (updateRank Map.empty ''q1'' 0 ''No'') ''  '')"
proof -
  let ?rs = "updateRank Map.empty ''q1'' 0 ''No''"
  have "reachable ?rs"
    by (intro reachable.intros)
  then have h1: "objectsWellFormed ?rs"
    by (rule reachable_objectsWellFormed)
  have h2: "withinOptions twoQuestions ?rs"
    by (simp add: withinOptions_def twoQuestions_def currentRank_updateRank currentRank_empty)
  have e: "errors (validateForm twoQuestions ?rs ''  '')
       = [QuestionError ''q2'' 1 ''Question 2: What is your favorite animal?...'',
          FinalCommentError ''Final Comments: Please share your recommendations'']"
    by code_simp
  from validateForm_correct [OF h1 h2, of "''  ''"]
  have "isValid (validateForm twoQuestions ?rs ''  '')
           = (errors (validateForm twoQuestions ?rs ''  '') = [])"
    by blast
  with e have "\<not> isValid (validateForm twoQuestions ?rs ''  '')"
    by simp
  with h1 h2 e show ?thesis by blast
qed

section \<open>Properties of the normalizer\<close>

lemma map_of_normalizeEntry:
  "map_of (normalizeEntry qData n) i =
     (if i < n
      then Some (case map_of qData i of
                   None \<Rightarrow> ''No''
                 | Some held \<Rightarrow> if held = '''' then ''No'' else held)
      else None)"
  by (simp add: normalizeEntry_def map_of_map_restrict restrict_map_def)

lemma map_fst_normalizeEntry: "map fst (normalizeEntry qData n) = [0..<n]"
  by (simp add: normalizeEntry_def comp_def)

lemma normalizeEntry_nonempty: "(k, held) \<in> set (normalizeEntry qData n) \<Longrightarrow> held \<noteq> ''''"
  by (auto simp: normalizeEntry_def split: option.splits if_splits)

lemma normalizeQuestions_other:
  "qId \<notin> q_id ` set qs \<Longrightarrow> normalizeQuestions rs qs acc qId = acc qId"
  by (induction qs arbitrary: acc) simp_all

lemma normalizeQuestions_member:
  "distinct (map q_id qs) \<Longrightarrow> q \<in> set qs \<Longrightarrow>
   normalizeQuestions rs qs acc (q_id q) =
     Some (normalizeEntry (case rs (q_id q) of None \<Rightarrow> [] | Some d \<Rightarrow> d) (length (q_options q)))"
proof (induction qs arbitrary: acc)
  case Nil
  then show ?case by simp
next
  case (Cons x xs)
  show ?case
  proof (cases "q = x")
    case True
    from Cons.prems(1) have "q_id x \<notin> q_id ` set xs" by simp
    then show ?thesis
      by (simp add: True normalizeQuestions_other)
  next
    case False
    with Cons.prems have "q \<in> set xs" and "distinct (map q_id xs)" by simp_all
    from Cons.IH [OF this(2) this(1)] show ?thesis by simp
  qed
qed

lemma normalizeQuestions_values:
  "normalizeQuestions rs qs acc qId = Some entry \<Longrightarrow>
   acc qId = Some entry \<or> (\<exists>d n. entry = normalizeEntry d n)"
proof (induction qs arbitrary: acc)
  case Nil
  then show ?case by simp
next
  case (Cons x xs)
  from Cons.IH [OF Cons.prems [simplified]] show ?case
    by (auto split: if_splits)
qed

lemma label_or_No:
  "(case map_of (case rs qId of None \<Rightarrow> [] | Some d \<Rightarrow> d) i of
      None \<Rightarrow> ''No''
    | Some held \<Rightarrow> if held = '''' then ''No'' else held)
   = (if currentRank rs qId i = '''' then ''No'' else currentRank rs qId i)"
  by (simp add: currentRank_def split: option.splits)

text \<open>
  Claim C4. When question ids are unique, the payload built by \<open>normalizeFormData\<close> has,
  for every question and every option index below its number of options, an entry whose
  value is the label held in the state when that is non-empty and \<open>"No"\<close> otherwise; the
  entry's keys are exactly the option indices. No value anywhere in the payload's
  responses is the empty string, and \<open>otherText\<close> and \<open>finalComment\<close> are passed through.
\<close>

theorem normalizeFormData_total_coverage:
  assumes "distinct (map q_id questions)"
  shows "(q \<in> set questions \<and> i < length (q_options q) \<longrightarrow>
           (\<exists>entry. p_responses (normalizeFormData now questions rs otherText finalComment) (q_id q)
                      = Some entry
                  \<and> map fst entry = [0..<length (q_options q)]
                  \<and> map_of entry i
                      = Some (if currentRank rs (q_id q) i = '''' then ''No''
                              else currentRank rs (q_id q) i)))
       \<and> (p_responses (normalizeFormData now questions rs otherText finalComment) qId = Some entry'
            \<and> (k, held) \<in> set entry' \<longrightarrow> held \<noteq> '''')
       \<and> p_otherText (normalizeFormData now questions rs otherText finalComment) = otherText
       \<and> p_finalComment (normalizeFormData now questions rs otherText finalComment) = finalComment"
proof -
  have a: "q \<in> set questions \<and> i < length (q_options q) \<longrightarrow>
           (\<exists>entry. p_responses (normalizeFormData now questions rs otherText finalComment) (q_id q)
                      = Some entry
                  \<and> map fst entry = [0..<length (q_options q)]
                  \<and> map_of entry i
                      = Some (if currentRank rs (q_id q) i = '''' then ''No''
                              else currentRank rs (q_id q) i))"
    using normalizeQuestions_member [OF assms, of q rs Map.empty]
    by (simp add: normalizeFormData_def map_fst_normalizeEntry map_of_normalizeEntry label_or_No)
  have b: "p_responses (normalizeFormData now questions rs otherText finalComment) qId = Some entry'
            \<and> (k, held) \<in> set entry' \<longrightarrow> held \<noteq> ''''"
    using normalizeQuestions_values [of rs questions Map.empty qId entry']
    by (auto simp: normalizeFormData_def dest: normalizeEntry_nonempty)
  from a b show ?thesis
    by (simp add: normalizeFormData_def)
qed

theorem normalizeFormData_total_coverage_witness:
  "distinct (map q_id twoQuestions)
   \<and> twoQuestions ! 0 \<in> set twoQuestions
   \<and> (1::nat) < length (q_options (twoQuestions ! 0))
   \<and> (\<exists>entry. p_responses (normalizeFormData ''2025-12-11T00:00:00.000Z'' twoQuestions
                   (updateRank Map.empty ''q1'' 0 ''1'') Map.empty ''Great form!'')
                 (q_id (twoQuestions ! 0)) = Some entry
          \<and> map fst entry = [0..<length (q_options (twoQuestions ! 0))]
          \<and> map_of entry 1
              = Some (if currentRank (updateRank Map.empty ''q1'' 0 ''1'')
                           (q_id (twoQuestions ! 0)) 1 = '''' then ''No''
                      else currentRank (updateRank Map.empty ''q1'' 0 ''1'')
                             (q_id (twoQuestions ! 0)) 1))
   \<and> p_responses (normalizeFormData ''2025-12-11T00:00:00.000Z'' twoQuestions
         (updateRank Map.empty ''q1'' 0 ''1'') Map.empty ''Great form!'') ''q1''
       = Some [(0, ''1''), (1, ''No'')]"
proof -
  have h1: "distinct (map q_id twoQuestions)"
    by (simp add: twoQuestions_def)
  have h2: "twoQuestions ! 0 \<in> set twoQuestions"
    by (simp add: twoQuestions_def)
  have h3: "(1::nat) < length (q_options (twoQuestions ! 0))"
    by (simp add: twoQuestions_def)
  note covered = normalizeFormData_total_coverage [OF h1, of "twoQuestions ! 0" 1
      "''2025-12-11T00:00:00.000Z''" "updateRank Map.empty ''q1'' 0 ''1''" Map.empty
      "''Great form!''", THEN conjunct1, THEN mp, OF conjI, OF h2 h3]
  have v: "p_responses (normalizeFormData ''2025-12-11T00:00:00.000Z'' twoQuestions
         (updateRank Map.empty ''q1'' 0 ''1'') Map.empty ''Great form!'') ''q1''
       = Some [(0, ''1''), (1, ''No'')]"
    by code_simp
  from h1 h2 h3 covered v show ?thesis
    by (intro conjI)
qed

section \<open>Properties of the transport\<close>

lemma retryLoop_past:
  "maxRetries < attempt \<Longrightarrow>
   retryLoop fetch maxRetries t d on attempt lastError = ([], FellThrough lastError)"
  by (subst retryLoop.simps) simp

lemma retryLoop_resolves:
  "attempt \<le> maxRetries \<Longrightarrow> fetch attempt = FetchResolves \<Longrightarrow>
   retryLoop fetch maxRetries t d on attempt lastError = ([Fetch attempt], Returned)"
  by (subst retryLoop.simps) simp

lemma retryLoop_retry:
  "attempt < maxRetries \<Longrightarrow> fetch attempt = FetchThrows err \<Longrightarrow>
   retryLoop fetch maxRetries t d on attempt lastError =
     (Fetch attempt
        # (if on then [OnRetry attempt (errorMessageOf t err) (d * attempt)] else [])
        @ Delay (d * attempt)
        # fst (retryLoop fetch maxRetries t d on (Suc attempt) (Some err)),
      snd (retryLoop fetch maxRetries t d on (Suc attempt) (Some err)))"
  by (subst retryLoop.simps) (simp add: Let_def)

lemma retryLoop_last:
  "fetch maxRetries = FetchThrows err \<Longrightarrow>
   retryLoop fetch maxRetries t d on maxRetries lastError =
     (Fetch maxRetries # (if on then [OnRetry maxRetries (errorMessageOf t err) 0] else []),
      FellThrough (Some err))"
  by (subst retryLoop.simps) (simp add: Let_def retryLoop_past)

lemma retryLoop_starts_with_fetch:
  "attempt \<le> maxRetries \<Longrightarrow>
   \<exists>rest. fst (retryLoop fetch maxRetries t d on attempt lastError) = Fetch attempt # rest"
  by (subst retryLoop.simps) (simp add: Let_def split: fetchResult.splits)

lemma linearBackoff_0: "linearBackoff failure t d a 0 = []"
  by (simp add: linearBackoff_def)

lemma linearBackoff_Suc:
  "linearBackoff failure t d a (Suc n) =
     Fetch a # OnRetry a (errorMessageOf t (failure a)) (d * a) # Delay (d * a)
       # linearBackoff failure t d (Suc a) n"
proof -
  have "[a..<a + Suc n] = a # [Suc a..<Suc a + n]"
    by (simp add: upt_conv_Cons)
  then show ?thesis
    by (simp add: linearBackoff_def)
qed

lemma retryLoop_failing_prefix:
  "(\<forall>k. a \<le> k \<and> k < a + n \<longrightarrow> fetch k = FetchThrows (failure k)) \<Longrightarrow> a + n \<le> maxRetries \<Longrightarrow>
   \<exists>lastError'.
     retryLoop fetch maxRetries t d True a lastError =
       (linearBackoff failure t d a n
          @ fst (retryLoop fetch maxRetries t d True (a + n) lastError'),
        snd (retryLoop fetch maxRetries t d True (a + n) lastError'))
     \<and> (0 < n \<longrightarrow> lastError' = Some (failure (a + n - 1)))"
proof (induction n arbitrary: a lastError)
  case 0
  show ?case
    by (rule exI [where x = lastError]) (simp add: linearBackoff_0)
next
  case (Suc n)
  from Suc.prems have a: "a < maxRetries" and f: "fetch a = FetchThrows (failure a)"
    by simp_all
  from Suc.prems have "\<forall>k. Suc a \<le> k \<and> k < Suc a + n \<longrightarrow> fetch k = FetchThrows (failure k)"
    and "Suc a + n \<le> maxRetries"
    by simp_all
  from Suc.IH [OF this, of "Some (failure a)"]
  obtain le' where
    eq: "retryLoop fetch maxRetries t d True (Suc a) (Some (failure a)) =
       (linearBackoff failure t d (Suc a) n
          @ fst (retryLoop fetch maxRetries t d True (Suc a + n) le'),
        snd (retryLoop fetch maxRetries t d True (Suc a + n) le'))"
    and le: "0 < n \<longrightarrow> le' = Some (failure (Suc a + n - 1))"
    by blast
  show ?case
  proof (cases "n = 0")
    case True
    show ?thesis
      by (rule exI [where x = "Some (failure a)"])
         (simp add: True retryLoop_retry [of a maxRetries fetch "failure a", OF a f] linearBackoff_Suc linearBackoff_0)
  next
    case False
    with le have le': "le' = Some (failure (a + n))" by simp
    show ?thesis
      by (rule exI [where x = le'])
         (simp add: retryLoop_retry [of a maxRetries fetch "failure a", OF a f] eq linearBackoff_Suc le')
  qed
qed

lemma fetch_count_retryLoop:
  "length (filter isFetch (fst (retryLoop fetch maxRetries t d on attempt lastError)))
     \<le> Suc maxRetries - attempt"
proof (induction fetch maxRetries t d on attempt lastError rule: retryLoop.induct)
  case (1 fetch maxRetries timeout initialRetryDelay onRetry attempt lastError)
  show ?case
  proof (cases "attempt \<le> maxRetries")
    case False
    then show ?thesis by (simp add: retryLoop_past)
  next
    case True
    show ?thesis
    proof (cases "fetch attempt")
      case FetchResolves
      with True show ?thesis by (simp add: retryLoop_resolves isFetch_def)
    next
      case (FetchThrows err)
      note ih = 1 [OF True FetchThrows refl refl refl refl]
      show ?thesis
      proof (cases "attempt = maxRetries")
        case True
        with FetchThrows show ?thesis
          by (simp add: retryLoop_last isFetch_def)
      next
        case False
        with True have lt: "attempt < maxRetries" by simp
        from ih lt show ?thesis
          by (simp add: retryLoop_retry [of attempt maxRetries fetch err, OF lt FetchThrows]
                isFetch_def)
      qed
    qed
  qed
qed

lemma fetch_count_linearBackoff: "length (filter isFetch (linearBackoff failure t d a n)) = n"
  by (induction n arbitrary: a) (simp_all add: linearBackoff_0 linearBackoff_Suc isFetch_def)

lemma onRetry_linearBackoff:
  "filter isOnRetry (linearBackoff failure t d a n) =
     map (\<lambda>k. OnRetry k (errorMessageOf t (failure k)) (d * k)) [a..<a + n]"
proof (induction n arbitrary: a)
  case 0
  show ?case by (simp add: linearBackoff_0)
next
  case (Suc n)
  have "[a..<a + Suc n] = a # [Suc a..<Suc a + n]"
    by (simp add: upt_conv_Cons)
  with Suc [of "Suc a"] show ?case
    by (simp add: linearBackoff_Suc isOnRetry_def)
qed

lemma submitForm_configured:
  "url \<noteq> [] \<Longrightarrow>
   submitForm fetch data (Some url) options =
     (let maxRetries = orDefault DEFAULT_MAX_RETRIES (opt_maxRetries options);
          timeout = orDefault DEFAULT_TIMEOUT_MS (opt_timeout options);
          loop = retryLoop (fetch url data timeout) maxRetries timeout
                   (orDefault DEFAULT_INITIAL_RETRY_DELAY_MS (opt_initialRetryDelay options))
                   (opt_onRetry options) 1 None
      in (fst loop,
          case snd loop of
            Returned \<Rightarrow> Resolved
          | FellThrough lastError \<Rightarrow>
              Rejected (''Form submission failed after '' @ numberToString maxRetries
                        @ '' attempts: ''
                        @ (case lastError of
                             None \<Rightarrow> ''Unknown error''
                           | Some e \<Rightarrow>
                               if err_message e = [] then ''Unknown error''
                               else err_message e))))"
  by (simp add: submitForm_def Let_def split: prod.splits loopExit.splits)

lemma submitForm_loop:
  assumes "maxRetries = orDefault DEFAULT_MAX_RETRIES (opt_maxRetries options)"
    and "timeout = orDefault DEFAULT_TIMEOUT_MS (opt_timeout options)"
    and "initialRetryDelayMs
           = orDefault DEFAULT_INITIAL_RETRY_DELAY_MS (opt_initialRetryDelay options)"
    and "url \<noteq> []" and "opt_onRetry options"
  shows "submitForm fetch data (Some url) options
      = (fst (retryLoop (fetch url data timeout) maxRetries timeout initialRetryDelayMs True 1 None),
         case snd (retryLoop (fetch url data timeout) maxRetries timeout initialRetryDelayMs
                     True 1 None) of
           Returned \<Rightarrow> Resolved
         | FellThrough lastError \<Rightarrow>
              Rejected (''Form submission failed after '' @ numberToString maxRetries
                        @ '' attempts: ''
                        @ (case lastError of
                             None \<Rightarrow> ''Unknown error''
                           | Some e \<Rightarrow>
                               if err_message e = [] then ''Unknown error''
                               else err_message e)))"
  unfolding assms(1,2,3) using assms(4,5)
  by (simp add: submitForm_configured Let_def)

text \<open>
  Claim C5. With an empty or undefined endpoint URL, \<open>submitForm\<close> rejects at once with
  the configuration error, whatever the payload and the options: the trace is empty, so
  there is no network attempt, no call of \<open>onRetry\<close> and no delay. \<open>getErrorMessage\<close>
  reports that error as a configuration problem.
\<close>

theorem submitForm_unconfigured:
  "(scriptUrl = None \<or> scriptUrl = Some '''' \<longrightarrow>
      submitForm fetch data scriptUrl options
        = ([], Rejected ''Google Apps Script URL is not configured''))
   \<and> getErrorMessage ''Google Apps Script URL is not configured''
       = ''Form is not properly configured. Please contact support.''"
proof -
  have "getErrorMessage ''Google Apps Script URL is not configured''
       = ''Form is not properly configured. Please contact support.''"
    by code_simp
  then show ?thesis
    by (auto simp: submitForm_def Let_def)
qed

theorem submitForm_unconfigured_witness:
  "(Some '''' = (None :: string option) \<or> Some '''' = Some '''')
   \<and> submitForm alwaysTimesOut () (Some '''') threeRetries
        = ([], Rejected ''Google Apps Script URL is not configured'')"
proof -
  have h: "Some '''' = (None :: string option) \<or> Some '''' = Some ''''"
    by simp
  from submitForm_unconfigured [of "Some ''''" alwaysTimesOut "()" threeRetries,
      THEN conjunct1, THEN mp, OF h] h
  show ?thesis by (intro conjI)
qed

text \<open>
  Claim C6. With an endpoint and an \<open>onRetry\<close> callback: if the attempts 1 to \<open>k\<close> fail
  and \<open>k\<close> is below \<open>maxRetries\<close>, the call starts with, for each of them in turn, the
  request, \<open>onRetry(j, classifiedError, initialRetryDelay * j)\<close> and a suspension of that
  length, and goes on to attempt \<open>k + 1\<close>. With \<open>maxRetries = 3\<close> and an initial delay of
  1000, a network that fails at attempts 1 and 2 and answers at attempt 3 sees \<open>onRetry\<close>
  exactly twice, with delays 1000 and 2000, and the call resolves.
\<close>

theorem submitForm_linear_backoff:
  assumes "maxRetries = orDefault DEFAULT_MAX_RETRIES (opt_maxRetries options)"
    and "timeout = orDefault DEFAULT_TIMEOUT_MS (opt_timeout options)"
    and "initialRetryDelayMs
           = orDefault DEFAULT_INITIAL_RETRY_DELAY_MS (opt_initialRetryDelay options)"
    and "url \<noteq> []" and "opt_onRetry options"
  shows "(k < maxRetries \<and> (\<forall>j. 1 \<le> j \<and> j \<le> k \<longrightarrow> fetch url data timeout j = FetchThrows (failure j))
           \<longrightarrow> (\<exists>rest. fst (submitForm fetch data (Some url) options)
                         = linearBackoff failure timeout initialRetryDelayMs 1 k
                           @ Fetch (Suc k) # rest))
       \<and> (maxRetries = 3 \<and> initialRetryDelayMs = 1000
           \<and> fetch url data timeout 1 = FetchThrows e1
           \<and> fetch url data timeout 2 = FetchThrows e2
           \<and> fetch url data timeout 3 = FetchResolves
           \<longrightarrow> submitForm fetch data (Some url) options
                 = ([Fetch 1, OnRetry 1 (errorMessageOf timeout e1) 1000, Delay 1000,
                     Fetch 2, OnRetry 2 (errorMessageOf timeout e2) 2000, Delay 2000,
                     Fetch 3], Resolved)
               \<and> filter isOnRetry (fst (submitForm fetch data (Some url) options))
                 = [OnRetry 1 (errorMessageOf timeout e1) 1000,
                    OnRetry 2 (errorMessageOf timeout e2) 2000])"
proof (intro conjI impI)
  let ?f = "fetch url data timeout"
  assume k: "k < maxRetries \<and> (\<forall>j. 1 \<le> j \<and> j \<le> k \<longrightarrow> ?f j = FetchThrows (failure j))"
  then have "\<forall>j. 1 \<le> j \<and> j < 1 + k \<longrightarrow> ?f j = FetchThrows (failure j)" and "1 + k \<le> maxRetries"
    by simp_all
  from retryLoop_failing_prefix [OF this, of timeout initialRetryDelayMs None]
  obtain le' where
    "retryLoop ?f maxRetries timeout initialRetryDelayMs True 1 None =
       (linearBackoff failure timeout initialRetryDelayMs 1 k
          @ fst (retryLoop ?f maxRetries timeout initialRetryDelayMs True (1 + k) le'),
        snd (retryLoop ?f maxRetries timeout initialRetryDelayMs True (1 + k) le'))"
    by blast
  moreover from k retryLoop_starts_with_fetch [of "1 + k" maxRetries ?f timeout initialRetryDelayMs True le']
  obtain rest where
    "fst (retryLoop ?f maxRetries timeout initialRetryDelayMs True (1 + k) le') = Fetch (Suc k) # rest"
    by auto
  ultimately have "fst (retryLoop ?f maxRetries timeout initialRetryDelayMs True 1 None)
      = linearBackoff failure timeout initialRetryDelayMs 1 k @ Fetch (Suc k) # rest"
    by simp
  then show "\<exists>rest. fst (submitForm fetch data (Some url) options)
                         = linearBackoff failure timeout initialRetryDelayMs 1 k
                           @ Fetch (Suc k) # rest"
    unfolding submitForm_loop [OF assms] by simp
next
  let ?f = "fetch url data timeout"
  assume c: "maxRetries = 3 \<and> initialRetryDelayMs = 1000
           \<and> ?f 1 = FetchThrows e1 \<and> ?f 2 = FetchThrows e2 \<and> ?f 3 = FetchResolves"
  then have f1: "?f (Suc 0) = FetchThrows e1" and f2: "?f (Suc (Suc 0)) = FetchThrows e2"
    and f3: "?f (Suc (Suc (Suc 0))) = FetchResolves"
    by (simp_all add: numeral_2_eq_2 numeral_3_eq_3)
  have l3: "retryLoop ?f 3 timeout 1000 True (Suc (Suc (Suc 0))) (Some e2)
      = ([Fetch (Suc (Suc (Suc 0)))], Returned)"
    using retryLoop_resolves [of "Suc (Suc (Suc 0))" 3 ?f timeout 1000 True "Some e2"] f3
    by simp
  have l2: "retryLoop ?f 3 timeout 1000 True (Suc (Suc 0)) (Some e1) =
      ([Fetch (Suc (Suc 0)), OnRetry (Suc (Suc 0)) (errorMessageOf timeout e2) 2000,
        Delay 2000, Fetch (Suc (Suc (Suc 0)))], Returned)"
    using retryLoop_retry [of "Suc (Suc 0)" 3 ?f e2 timeout 1000 True "Some e1"] f2
    by (simp add: l3)
  have l1: "retryLoop ?f 3 timeout 1000 True 1 None =
      ([Fetch (Suc 0), OnRetry (Suc 0) (errorMessageOf timeout e1) 1000, Delay 1000,
        Fetch (Suc (Suc 0)), OnRetry (Suc (Suc 0)) (errorMessageOf timeout e2) 2000,
        Delay 2000, Fetch (Suc (Suc (Suc 0)))], Returned)"
    using retryLoop_retry [of "Suc 0" 3 ?f e1 timeout 1000 True None] f1
    by (simp add: l2)
  from c have mr: "maxRetries = 3" and dl: "initialRetryDelayMs = 1000"
    by simp_all
  note s = submitForm_loop [OF assms, of fetch data, unfolded mr dl]
  show "submitForm fetch data (Some url) options
                 = ([Fetch 1, OnRetry 1 (errorMessageOf timeout e1) 1000, Delay 1000,
                     Fetch 2, OnRetry 2 (errorMessageOf timeout e2) 2000, Delay 2000,
                     Fetch 3], Resolved)"
    unfolding s l1 by (simp add: numeral_2_eq_2 numeral_3_eq_3)
  then show "filter isOnRetry (fst (submitForm fetch data (Some url) options))
                 = [OnRetry 1 (errorMessageOf timeout e1) 1000,
                    OnRetry 2 (errorMessageOf timeout e2) 2000]"
    by (simp add: isOnRetry_def)
qed

theorem submitForm_linear_backoff_witness:
  "(3::nat) = orDefault DEFAULT_MAX_RETRIES (opt_maxRetries threeRetries)
   \<and> (5000::nat) = orDefault DEFAULT_TIMEOUT_MS (opt_timeout threeRetries)
   \<and> (1000::nat) = orDefault DEFAULT_INITIAL_RETRY_DELAY_MS (opt_initialRetryDelay threeRetries)
   \<and> ''https://script.example/exec'' \<noteq> [] \<and> opt_onRetry threeRetries
   \<and> failsTwice ''https://script.example/exec'' () 5000 1 = FetchThrows typeError
   \<and> failsTwice ''https://script.example/exec'' () 5000 2 = FetchThrows typeError
   \<and> failsTwice ''https://script.example/exec'' () 5000 3 = FetchResolves
   \<and> submitForm failsTwice () (Some ''https://script.example/exec'') threeRetries
       = ([Fetch 1, OnRetry 1 ''Network error - unable to reach server'' 1000, Delay 1000,
           Fetch 2, OnRetry 2 ''Network error - unable to reach server'' 2000, Delay 2000,
           Fetch 3], Resolved)"
proof -
  have h1: "(3::nat) = orDefault DEFAULT_MAX_RETRIES (opt_maxRetries threeRetries)"
    by (simp add: threeRetries_def orDefault_def)
  have h2: "(5000::nat) = orDefault DEFAULT_TIMEOUT_MS (opt_timeout threeRetries)"
    by (simp add: threeRetries_def orDefault_def DEFAULT_TIMEOUT_MS_def)
  have h3: "(1000::nat) = orDefault DEFAULT_INITIAL_RETRY_DELAY_MS (opt_initialRetryDelay threeRetries)"
    by (simp add: threeRetries_def orDefault_def)
  have h4: "''https://script.example/exec'' \<noteq> []" by simp
  have h5: "opt_onRetry threeRetries" by (simp add: threeRetries_def)
  have f1: "failsTwice ''https://script.example/exec'' () 5000 1 = FetchThrows typeError"
    and f2: "failsTwice ''https://script.example/exec'' () 5000 2 = FetchThrows typeError"
    and f3: "failsTwice ''https://script.example/exec'' () 5000 3 = FetchResolves"
    by (simp_all add: failsTwice_def)
  have m: "errorMessageOf 5000 typeError = ''Network error - unable to reach server''"
    by (simp add: errorMessageOf_def typeError_def)
  from submitForm_linear_backoff [OF h1 h2 h3 h4 h5, of _ failsTwice "()" _ typeError typeError,
      THEN conjunct2, THEN mp, OF conjI, OF refl conjI, OF refl conjI, OF f1 conjI, OF f2 f3,
      THEN conjunct1]
  have "submitForm failsTwice () (Some ''https://script.example/exec'') threeRetries
       = ([Fetch 1, OnRetry 1 ''Network error - unable to reach server'' 1000, Delay 1000,
           Fetch 2, OnRetry 2 ''Network error - unable to reach server'' 2000, Delay 2000,
           Fetch 3], Resolved)"
    unfolding m .
  with h1 h2 h3 h4 h5 f1 f2 f3 show ?thesis
    by (intro conjI)
qed

text \<open>
  Claim C7. With an endpoint and an \<open>onRetry\<close> callback, when every attempt fails and
  \<open>maxRetries\<close> is positive: the call makes the attempts 1 to \<open>maxRetries\<close> and no more,
  the last one is followed by \<open>onRetry\<close> with delay 0 and no suspension, and the promise
  rejects once, with a message that names \<open>maxRetries\<close> and ends with the message of the
  last failure (\<open>Unknown error\<close> when that is empty). Whatever the network does, there are
  at most \<open>maxRetries\<close> attempts.
\<close>

theorem submitForm_exhaustion:
  assumes "maxRetries = orDefault DEFAULT_MAX_RETRIES (opt_maxRetries options)"
    and "timeout = orDefault DEFAULT_TIMEOUT_MS (opt_timeout options)"
    and "initialRetryDelayMs
           = orDefault DEFAULT_INITIAL_RETRY_DELAY_MS (opt_initialRetryDelay options)"
    and "url \<noteq> []" and "opt_onRetry options"
  shows "(0 < maxRetries
          \<and> (\<forall>j. 1 \<le> j \<and> j \<le> maxRetries \<longrightarrow> fetch url data timeout j = FetchThrows (failure j))
          \<longrightarrow> submitForm fetch data (Some url) options
                = (linearBackoff failure timeout initialRetryDelayMs 1 (maxRetries - 1)
                   @ [Fetch maxRetries,
                      OnRetry maxRetries (errorMessageOf timeout (failure maxRetries)) 0],
                   Rejected (''Form submission failed after '' @ numberToString maxRetries
                             @ '' attempts: ''
                             @ (if err_message (failure maxRetries) = [] then ''Unknown error''
                                else err_message (failure maxRetries))))
              \<and> length (filter isFetch (fst (submitForm fetch data (Some url) options)))
                = maxRetries)
       \<and> length (filter isFetch (fst (submitForm fetch data (Some url) options))) \<le> maxRetries"
proof (intro conjI impI)
  let ?f = "fetch url data timeout"
  note sl = submitForm_loop [OF assms, of fetch data]
  have s: "fst (submitForm fetch data (Some url) options)
      = fst (retryLoop ?f maxRetries timeout initialRetryDelayMs True 1 None)"
    unfolding sl by simp
  show "length (filter isFetch (fst (submitForm fetch data (Some url) options))) \<le> maxRetries"
    unfolding s
    using fetch_count_retryLoop [of ?f maxRetries timeout initialRetryDelayMs True 1 None]
    by simp
  assume a: "0 < maxRetries
          \<and> (\<forall>j. 1 \<le> j \<and> j \<le> maxRetries \<longrightarrow> ?f j = FetchThrows (failure j))"
  then have "\<forall>j. 1 \<le> j \<and> j < 1 + (maxRetries - 1) \<longrightarrow> ?f j = FetchThrows (failure j)"
    and "1 + (maxRetries - 1) \<le> maxRetries"
    by simp_all
  from retryLoop_failing_prefix [OF this, of timeout initialRetryDelayMs None]
  obtain le' where
    "retryLoop ?f maxRetries timeout initialRetryDelayMs True 1 None =
       (linearBackoff failure timeout initialRetryDelayMs 1 (maxRetries - 1)
          @ fst (retryLoop ?f maxRetries timeout initialRetryDelayMs True (1 + (maxRetries - 1)) le'),
        snd (retryLoop ?f maxRetries timeout initialRetryDelayMs True (1 + (maxRetries - 1)) le'))"
    by blast
  moreover from a have "1 + (maxRetries - 1) = maxRetries"
    by simp
  moreover from a have "?f maxRetries = FetchThrows (failure maxRetries)"
    by simp
  ultimately have l: "retryLoop ?f maxRetries timeout initialRetryDelayMs True 1 None =
       (linearBackoff failure timeout initialRetryDelayMs 1 (maxRetries - 1)
          @ [Fetch maxRetries, OnRetry maxRetries (errorMessageOf timeout (failure maxRetries)) 0],
        FellThrough (Some (failure maxRetries)))"
    using retryLoop_last [of ?f maxRetries "failure maxRetries" timeout initialRetryDelayMs True le']
    by simp
  show e: "submitForm fetch data (Some url) options
                = (linearBackoff failure timeout initialRetryDelayMs 1 (maxRetries - 1)
                   @ [Fetch maxRetries,
                      OnRetry maxRetries (errorMessageOf timeout (failure maxRetries)) 0],
                   Rejected (''Form submission failed after '' @ numberToString maxRetries
                             @ '' attempts: ''
                             @ (if err_message (failure maxRetries) = [] then ''Unknown error''
                                else err_message (failure maxRetries))))"
    unfolding sl l by simp
  from a show "length (filter isFetch (fst (submitForm fetch data (Some url) options))) = maxRetries"
    unfolding e by (simp add: fetch_count_linearBackoff isFetch_def)
qed

lemma numberToString_3: "numberToString 3 = ''3''"
  by (simp add: numberToString.simps digitChar_def)

lemma numberToString_5000: "numberToString 5000 = ''5000''"
  by (simp add: numberToString.simps digitChar_def)

theorem submitForm_exhaustion_witness:
  "(3::nat) = orDefault DEFAULT_MAX_RETRIES (opt_maxRetries threeRetries)
   \<and> (5000::nat) = orDefault DEFAULT_TIMEOUT_MS (opt_timeout threeRetries)
   \<and> (1000::nat) = orDefault DEFAULT_INITIAL_RETRY_DELAY_MS (opt_initialRetryDelay threeRetries)
   \<and> ''https://script.example/exec'' \<noteq> [] \<and> opt_onRetry threeRetries
   \<and> (0::nat) < 3
   \<and> alwaysTimesOut ''https://script.example/exec'' () 5000 1 = FetchThrows abortError
   \<and> alwaysTimesOut ''https://script.example/exec'' () 5000 2 = FetchThrows abortError
   \<and> alwaysTimesOut ''https://script.example/exec'' () 5000 3 = FetchThrows abortError
   \<and> length (filter isFetch
         (fst (submitForm alwaysTimesOut () (Some ''https://script.example/exec'') threeRetries)))
       = 3
   \<and> submitForm alwaysTimesOut () (Some ''https://script.example/exec'') threeRetries
       = ([Fetch 1, OnRetry 1 ''Request timeout after 5000ms'' 1000, Delay 1000,
           Fetch 2, OnRetry 2 ''Request timeout after 5000ms'' 2000, Delay 2000,
           Fetch 3, OnRetry 3 ''Request timeout after 5000ms'' 0],
          Rejected ''Form submission failed after 3 attempts: The user aborted a request.'')"
proof -
  have h1: "(3::nat) = orDefault DEFAULT_MAX_RETRIES (opt_maxRetries threeRetries)"
    by (simp add: threeRetries_def orDefault_def)
  have h2: "(5000::nat) = orDefault DEFAULT_TIMEOUT_MS (opt_timeout threeRetries)"
    by (simp add: threeRetries_def orDefault_def DEFAULT_TIMEOUT_MS_def)
  have h3: "(1000::nat) = orDefault DEFAULT_INITIAL_RETRY_DELAY_MS (opt_initialRetryDelay threeRetries)"
    by (simp add: threeRetries_def orDefault_def)
  have h4: "''https://script.example/exec'' \<noteq> []" by simp
  have h5: "opt_onRetry threeRetries" by (simp add: threeRetries_def)
  have h6: "(0::nat) < 3" by simp
  have h7: "\<forall>j. 1 \<le> j \<and> j \<le> 3 \<longrightarrow>
          alwaysTimesOut ''https://script.example/exec'' () 5000 j = FetchThrows abortError"
    by (simp add: alwaysTimesOut_def)
  note both = submitForm_exhaustion [OF h1 h2 h3 h4 h5, of alwaysTimesOut "()" "\<lambda>j. abortError",
      THEN conjunct1, THEN mp, OF conjI, OF h6 h7]
  note t = both [THEN conjunct2]
  have v: "submitForm alwaysTimesOut () (Some ''https://script.example/exec'') threeRetries
       = ([Fetch 1, OnRetry 1 ''Request timeout after 5000ms'' 1000, Delay 1000,
           Fetch 2, OnRetry 2 ''Request timeout after 5000ms'' 2000, Delay 2000,
           Fetch 3, OnRetry 3 ''Request timeout after 5000ms'' 0],
          Rejected ''Form submission failed after 3 attempts: The user aborted a request.'')"
    unfolding both [THEN conjunct1]
    by (simp add: linearBackoff_def errorMessageOf_def abortError_def numberToString_3
          numberToString_5000)
  have f: "alwaysTimesOut ''https://script.example/exec'' () 5000 1 = FetchThrows abortError"
    "alwaysTimesOut ''https://script.example/exec'' () 5000 2 = FetchThrows abortError"
    "alwaysTimesOut ''https://script.example/exec'' () 5000 3 = FetchThrows abortError"
    by (simp_all add: alwaysTimesOut_def)
  from h1 h2 h3 h4 h5 h6 f t v show ?thesis
    by (intro conjI)
qed

end
